theory Spec2Isabelle
  imports Main "HOL-Library.Product_Lexorder" "HOL-Library.Multiset"
begin

section \<open>Python values and built-ins used by the generator\<close>

text \<open>
  A Python \<open>str\<close> is modelled as a \<open>string\<close> in which every \<open>char\<close> is one code point
  in the range 0..255. Python integers are unbounded, hence \<open>int\<close>. An exception that
  a call raises is a value of \<open>exn\<close>: \<open>FileNotFoundError\<close> and \<open>Exception\<close> as the
  loader raises them (\<open>Exception e\<close> stands for the generic
  \<^verbatim>\<open>Exception(f"Error reading booking file: {str(e)}")\<close> built from the caught
  exception \<open>e\<close>), \<open>ValueError\<close> with the text that identifies the failure (the
  rejected literal or the limit message of \<^verbatim>\<open>int()\<close>, the message of \<^verbatim>\<open>max()\<close>), \<open>KeyError\<close> of a
  missing dictionary key and \<open>OSError\<close> for any failure of opening or reading a file
  other than its absence.
\<close>

datatype exn =
    FileNotFoundError string
  | ValueError string
  | KeyError int
  | OSError
  | Exception exn

text \<open>The class of decimal digits of the \<^verbatim>\<open>re\<close> module: among the code points below 256 the
  decimal digits are exactly \<open>0\<close> to \<open>9\<close>.\<close>

definition is_digit :: "char \<Rightarrow> bool" where
  "is_digit c = (48 \<le> (of_char c :: nat) \<and> (of_char c :: nat) \<le> 57)"

definition digit_value :: "char \<Rightarrow> int" where
  "digit_value c = int (of_char c) - 48"

text \<open>\<^verbatim>\<open>str.isspace\<close>, which \<^verbatim>\<open>str.strip()\<close> uses: below 256 these are the code
  points 9 to 13, 28 to 32, 133 and 160.\<close>

definition isspace :: "char \<Rightarrow> bool" where
  "isspace c = (let n = (of_char c :: nat)
     in (9 \<le> n \<and> n \<le> 13) \<or> (28 \<le> n \<and> n \<le> 32) \<or> n = 133 \<or> n = 160)"

definition strip :: "string \<Rightarrow> string" where
  "strip s = rev (dropWhile isspace (rev (dropWhile isspace s)))"

text \<open>\<^verbatim>\<open>s.split(sep)\<close> with a one-character separator: the pieces between the
  separators, empty pieces kept; \<open>acc\<close> holds the current piece reversed.\<close>

fun split_from :: "char \<Rightarrow> string \<Rightarrow> string \<Rightarrow> string list" where
  "split_from sep acc [] = [rev acc]"
| "split_from sep acc (c # cs) =
     (if c = sep then rev acc # split_from sep [] cs else split_from sep (c # acc) cs)"

definition py_split :: "string \<Rightarrow> char \<Rightarrow> string list" where
  "py_split s sep = split_from sep [] s"

text \<open>\<^verbatim>\<open>file.readlines()\<close> on the decoded text of a file (newlines already
  translated to a single line feed): every line keeps its newline, a last line without one is kept
  too.\<close>

fun readlines_from :: "string \<Rightarrow> string \<Rightarrow> string list" where
  "readlines_from acc [] = (if acc = [] then [] else [rev acc])"
| "readlines_from acc (c # cs) =
     (if c = CHR 0x0A then rev (c # acc) # readlines_from [] cs
      else readlines_from (c # acc) cs)"

definition readlines :: "string \<Rightarrow> string list" where
  "readlines contents = readlines_from [] contents"

text \<open>\<^verbatim>\<open>p in s\<close> on strings: \<open>p\<close> occurs in \<open>s\<close> as a contiguous substring.\<close>

fun contains :: "string \<Rightarrow> string \<Rightarrow> bool" where
  "contains p [] = (p = [])"
| "contains p (c # cs) = (take (length p) (c # cs) = p \<or> contains p cs)"

text \<open>\<^verbatim>\<open>re.search\<close> for one or more decimal digits in \<open>seat\<close>: the leftmost position where a digit stands, and
  from there the longest run of digits (\<open>+\<close> is greedy); \<open>None\<close> when no position
  matches. The result is \<^verbatim>\<open>match.group(1)\<close>.\<close>

fun re_search_digits :: "string \<Rightarrow> string option" where
  "re_search_digits [] = None"
| "re_search_digits (c # cs) =
     (if is_digit c then Some (takeWhile is_digit (c # cs)) else re_search_digits cs)"

text \<open>\<^verbatim>\<open>int(s)\<close> on a string, base 10, as the interpreter converts it. Surrounding
  whitespace is dropped (code points 9 to 13, 32, 133 and 160; unlike \<^verbatim>\<open>strip\<close>,
  \<^verbatim>\<open>int\<close> does not accept 28 to 31), then an optional sign. The conversion then scans
  the longest prefix of digits and underscores: it must be digits which single
  underscores may separate, else the literal is invalid; next, more than
  \<open>max_str_digits\<close> digits in it raise the \<^verbatim>\<open>ValueError\<close> of the interpreter's limit on
  integer string conversion (\<^verbatim>\<open>sys.int_info.default_max_str_digits\<close>, 4300, which
  nothing in the repository changes); last, anything left after the prefix makes the
  literal invalid. An invalid literal raises \<^verbatim>\<open>ValueError\<close>, modelled with the literal;
  the limit raises \<^verbatim>\<open>ValueError\<close>, modelled with the head of its message.\<close>

definition int_space :: "char \<Rightarrow> bool" where
  "int_space c = (let n = (of_char c :: nat)
     in (9 \<le> n \<and> n \<le> 13) \<or> n = 32 \<or> n = 133 \<or> n = 160)"

definition digits_value :: "string \<Rightarrow> int" where
  "digits_value ds = foldl (\<lambda>a c. 10 * a + digit_value c) 0 ds"

fun int_body :: "string \<Rightarrow> bool" where
  "int_body [] = False"
| "int_body [c] = is_digit c"
| "int_body (c # d # cs) =
     (is_digit c \<and> (if d = CHR ''_'' then int_body cs else int_body (d # cs)))"

definition max_str_digits :: nat where
  "max_str_digits = 4300"

definition limit_message :: string where
  "limit_message = ''Exceeds the limit (4300 digits) for integer string conversion''"

definition int_digits :: "string \<Rightarrow> string \<Rightarrow> exn + int" where
  "int_digits s body =
     (let scanned = takeWhile (\<lambda>c. is_digit c \<or> c = CHR ''_'') body;
          rest = dropWhile (\<lambda>c. is_digit c \<or> c = CHR ''_'') body;
          digits = filter is_digit scanned
      in if \<not> int_body scanned then Inl (ValueError s)
         else if max_str_digits < length digits then Inl (ValueError limit_message)
         else if rest \<noteq> [] then Inl (ValueError s)
         else Inr (digits_value digits))"

definition py_int :: "string \<Rightarrow> exn + int" where
  "py_int s =
     (case rev (dropWhile int_space (rev (dropWhile int_space s))) of
        [] \<Rightarrow> Inl (ValueError s)
      | c # cs \<Rightarrow>
          if c = CHR ''-'' then
            (case int_digits s cs of Inl e \<Rightarrow> Inl e | Inr n \<Rightarrow> Inr (- n))
          else if c = CHR ''+'' then int_digits s cs
          else int_digits s (c # cs))"

text \<open>\<^verbatim>\<open>max(xs)\<close> on a list of integers raises \<^verbatim>\<open>ValueError\<close> on the empty list.\<close>

fun py_max :: "int list \<Rightarrow> exn + int" where
  "py_max [] = Inl (ValueError ''max() arg is an empty sequence'')"
| "py_max (x # xs) = Inr (fold max xs x)"

text \<open>A list comprehension \<^verbatim>\<open>[f(x) for x in xs]\<close> whose \<open>f\<close> may raise: the first
  exception ends it.\<close>

fun map_result :: "('a \<Rightarrow> exn + 'b) \<Rightarrow> 'a list \<Rightarrow> exn + 'b list" where
  "map_result f [] = Inr []"
| "map_result f (x # xs) =
     (case f x of
        Inl e \<Rightarrow> Inl e
      | Inr y \<Rightarrow> (case map_result f xs of Inl e \<Rightarrow> Inl e | Inr ys \<Rightarrow> Inr (y # ys)))"

text \<open>\<^verbatim>\<open>enumerate(xs, start)\<close>.\<close>

fun enumerate_from :: "int \<Rightarrow> 'a list \<Rightarrow> (int \<times> 'a) list" where
  "enumerate_from i [] = []"
| "enumerate_from i (x # xs) = (i, x) # enumerate_from (i + 1) xs"

section \<open>The data model\<close>

text \<open>The dataclass \<^verbatim>\<open>Booking\<close> and the one attribute of
  \<^verbatim>\<open>BusBoardingSequenceGenerator\<close>. A method is a function of the instance that
  returns its result together with the instance as the method leaves it.\<close>

record booking =
  booking_id :: int
  seats :: "string list"
  min_distance :: int

record generator =
  bookings :: "booking list"

text \<open>One dictionary of the list that \<^verbatim>\<open>get_boarding_details\<close> returns, with its keys
  \<^verbatim>\<open>'sequence'\<close>, \<^verbatim>\<open>'booking_id'\<close>, \<^verbatim>\<open>'seats'\<close> and \<^verbatim>\<open>'furthest_seat_distance'\<close>.\<close>

record detail =
  d_sequence :: int
  d_booking_id :: int
  d_seats :: "string list"
  d_furthest_seat_distance :: int

text \<open>What opening and reading a path gives: no such file, a failure of another kind,
  or the text of the file.\<close>

datatype file_entry = Absent | Unreadable | Readable string

type_synonym filesystem = "string \<Rightarrow> file_entry"

definition no_files :: filesystem where
  "no_files = (\<lambda>path. Absent)"

section \<open>The generator\<close>

subsection \<open>\<^verbatim>\<open>parse_seat_distance\<close>\<close>

definition parse_seat_distance :: "string \<Rightarrow> exn + int" where
  "parse_seat_distance seat =
     (case re_search_digits seat of
        Some group1 \<Rightarrow> py_int group1
      | None \<Rightarrow> Inr 0)"

subsection \<open>Building one booking\<close>

text \<open>\<^verbatim>\<open>max(distances) if distances else 0\<close>.\<close>

definition furthest_distance :: "int list \<Rightarrow> exn + int" where
  "furthest_distance distances = (if distances \<noteq> [] then py_max distances else Inr 0)"

text \<open>The four statements that both loaders run on an identifier and a seats string:
  split at the commas and strip every piece, parse every seat, reduce, construct.\<close>

definition new_booking :: "int \<Rightarrow> string \<Rightarrow> exn + booking" where
  "new_booking bid seats_string =
     (let seat_list = map strip (py_split seats_string (CHR '',''))
      in case map_result parse_seat_distance seat_list of
           Inl e \<Rightarrow> Inl e
         | Inr distances \<Rightarrow>
             (case furthest_distance distances of
                Inl e \<Rightarrow> Inl e
              | Inr d \<Rightarrow> Inr \<lparr>booking_id = bid, seats = seat_list, min_distance = d\<rparr>))"

subsection \<open>\<^verbatim>\<open>load_bookings_from_data\<close>\<close>

fun load_data_loop :: "(int \<times> string) list \<Rightarrow> generator \<Rightarrow> exn option \<times> generator" where
  "load_data_loop [] self = (None, self)"
| "load_data_loop ((bid, seats_string) # rest) self =
     (case new_booking bid seats_string of
        Inl e \<Rightarrow> (Some e, self)
      | Inr b \<Rightarrow> load_data_loop rest (self\<lparr>bookings := bookings self @ [b]\<rparr>))"

definition load_bookings_from_data ::
    "(int \<times> string) list \<Rightarrow> generator \<Rightarrow> exn option \<times> generator" where
  "load_bookings_from_data booking_data self =
     load_data_loop booking_data (self\<lparr>bookings := []\<rparr>)"

subsection \<open>\<^verbatim>\<open>load_bookings_from_file\<close>\<close>

text \<open>The fields of a record line: the stripped line split at the tabs.\<close>

definition tab_fields :: "string \<Rightarrow> string list" where
  "tab_fields raw = py_split (strip raw) (CHR 0x09)"

text \<open>The \<^verbatim>\<open>for\<close> loop over the lines after the header. An exception leaves the loop
  with the instance as it is at that moment.\<close>

fun load_lines :: "string list \<Rightarrow> generator \<Rightarrow> exn option \<times> generator" where
  "load_lines [] self = (None, self)"
| "load_lines (raw # rest) self =
     (if strip raw = [] then load_lines rest self
      else if length (tab_fields raw) \<ge> 2 then
        (case py_int (tab_fields raw ! 0) of
           Inl e \<Rightarrow> (Some e, self)
         | Inr bid \<Rightarrow>
             (case new_booking bid (tab_fields raw ! 1) of
                Inl e \<Rightarrow> (Some e, self)
              | Inr b \<Rightarrow> load_lines rest (self\<lparr>bookings := bookings self @ [b]\<rparr>)))
      else load_lines rest self)"

text \<open>\<^verbatim>\<open>open(file_path, 'r')\<close> followed by \<^verbatim>\<open>readlines()\<close>.\<close>

definition open_readlines :: "filesystem \<Rightarrow> string \<Rightarrow> exn + string list" where
  "open_readlines fs file_path =
     (case fs file_path of
        Absent \<Rightarrow> Inl (FileNotFoundError file_path)
      | Unreadable \<Rightarrow> Inl OSError
      | Readable contents \<Rightarrow> Inr (readlines contents))"

text \<open>\<^verbatim>\<open>lines[start_idx:]\<close>, where \<^verbatim>\<open>start_idx\<close> is 1 when there is a first line and
  \<^verbatim>\<open>'Booking_ID'\<close> occurs in it, and 0 otherwise.\<close>

definition record_lines :: "string list \<Rightarrow> string list" where
  "record_lines lines =
     (let start_idx = (if lines \<noteq> [] \<and> contains ''Booking_ID'' (lines ! 0) then 1 else 0 :: nat)
      in drop start_idx lines)"

text \<open>The two \<^verbatim>\<open>except\<close> clauses, in their order.\<close>

definition reraise :: "string \<Rightarrow> exn \<Rightarrow> exn" where
  "reraise file_path e =
     (case e of
        FileNotFoundError m \<Rightarrow> FileNotFoundError (''Booking file not found: '' @ file_path)
      | _ \<Rightarrow> Exception e)"

definition load_bookings_from_file ::
    "filesystem \<Rightarrow> string \<Rightarrow> generator \<Rightarrow> exn option \<times> generator" where
  "load_bookings_from_file fs file_path self =
     (let self1 = self\<lparr>bookings := []\<rparr>
      in case open_readlines fs file_path of
           Inl e \<Rightarrow> (Some (reraise file_path e), self1)
         | Inr lines \<Rightarrow>
             (case load_lines (record_lines lines) self1 of
                (None, self2) \<Rightarrow> (None, self2)
              | (Some e, self2) \<Rightarrow> (Some (reraise file_path e), self2)))"

subsection \<open>\<^verbatim>\<open>generate_boarding_sequence\<close>\<close>

text \<open>\<^verbatim>\<open>sorted(self.bookings, key=lambda x: (-x.min_distance, x.booking_id))\<close>: Python's
  \<^verbatim>\<open>sorted\<close> is the stable sort on the key, tuples compare lexicographically.\<close>

definition sort_key_of :: "booking \<Rightarrow> int \<times> int" where
  "sort_key_of x = (- min_distance x, booking_id x)"

definition sorted_bookings :: "generator \<Rightarrow> booking list" where
  "sorted_bookings self = sort_key sort_key_of (bookings self)"

definition generate_boarding_sequence :: "generator \<Rightarrow> (int \<times> int) list \<times> generator" where
  "generate_boarding_sequence self =
     (if bookings self = [] then ([], self)
      else (map (\<lambda>(i, b). (i, booking_id b)) (enumerate_from 1 (sorted_bookings self)), self))"

subsection \<open>\<^verbatim>\<open>get_boarding_details\<close>\<close>

text \<open>\<^verbatim>\<open>{b.booking_id: b for b in self.bookings}\<close>: a later booking replaces an earlier
  one with the same identifier.\<close>

definition booking_dict :: "generator \<Rightarrow> (int \<rightharpoonup> booking)" where
  "booking_dict self = fold (\<lambda>b m. m(booking_id b \<mapsto> b)) (bookings self) Map.empty"

definition detail_of :: "(int \<rightharpoonup> booking) \<Rightarrow> int \<times> int \<Rightarrow> exn + detail" where
  "detail_of d entry =
     (case entry of (seq_num, bid) \<Rightarrow>
        (case d bid of
           None \<Rightarrow> Inl (KeyError bid)
         | Some b \<Rightarrow> Inr \<lparr>d_sequence = seq_num, d_booking_id = bid, d_seats = seats b,
                          d_furthest_seat_distance = min_distance b\<rparr>))"

definition get_boarding_details :: "generator \<Rightarrow> (exn + detail list) \<times> generator" where
  "get_boarding_details self =
     (case generate_boarding_sequence self of
        (sequence, self1) \<Rightarrow> (map_result (detail_of (booking_dict self1)) sequence, self1))"

section \<open>Vocabulary of the specification\<close>

text \<open>The integer that a string of decimal digits denotes in positional notation. This
  definition follows the specification's words ("the run's integer value"), to be
  compared with what \<open>py_int\<close> computes.\<close>

fun decimal_value :: "string \<Rightarrow> int" where
  "decimal_value [] = 0"
| "decimal_value (c # cs) = digit_value c * 10 ^ length cs + decimal_value cs"

text \<open>The first maximal run of decimal digits of a string, in the specification's words:
  the digits that follow the longest digit-free prefix.\<close>

definition first_digit_run :: "string \<Rightarrow> string" where
  "first_digit_run s = takeWhile is_digit (dropWhile (\<lambda>c. \<not> is_digit c) s)"

text \<open>A seats string is within the limit when, of every seat the loaders take from it
  (the comma-separated pieces, stripped), the first digit run has at most
  \<open>max_str_digits\<close> digits.\<close>

definition seats_within_limit :: "string \<Rightarrow> bool" where
  "seats_within_limit seats_string =
     list_all (\<lambda>seat. length (first_digit_run (strip seat)) \<le> max_str_digits)
       (py_split seats_string (CHR '',''))"

section \<open>The seat-distance parser\<close>

lemma foldl_decimal:
  "foldl (\<lambda>a c. 10 * a + digit_value c) a ds = a * 10 ^ length ds + decimal_value ds"
  by (induction ds arbitrary: a) (simp_all add: algebra_simps)

lemma digits_value_decimal: "digits_value ds = decimal_value ds"
  by (simp add: digits_value_def foldl_decimal)

lemma digit_value_nonneg: "is_digit c \<Longrightarrow> 0 \<le> digit_value c"
  by (simp add: is_digit_def digit_value_def)

lemma decimal_value_nonneg: "\<forall>c\<in>set ds. is_digit c \<Longrightarrow> 0 \<le> decimal_value ds"
  by (induction ds) (simp_all add: digit_value_nonneg)

lemma digit_not_int_space: "is_digit c \<Longrightarrow> \<not> int_space c"
  by (auto simp: is_digit_def int_space_def Let_def)

lemma digit_not_sign: "is_digit c \<Longrightarrow> c \<noteq> CHR ''-'' \<and> c \<noteq> CHR ''+'' \<and> c \<noteq> CHR ''_''"
  by (auto simp: is_digit_def)

lemma int_body_digits: "ds \<noteq> [] \<Longrightarrow> \<forall>c\<in>set ds. is_digit c \<Longrightarrow> int_body ds"
  by (induction ds rule: int_body.induct) (auto simp: digit_not_sign)

lemma dropWhile_int_space_digits:
  assumes "ds \<noteq> []" "\<forall>c\<in>set ds. is_digit c"
  shows "rev (dropWhile int_space (rev (dropWhile int_space ds))) = ds"
proof -
  from assms obtain c cs where ds: "ds = c # cs" by (cases ds) auto
  with assms have "dropWhile int_space ds = ds"
    by (simp add: digit_not_int_space)
  moreover from assms have "\<not> int_space (last ds)"
    by (simp add: digit_not_int_space)
  then have "dropWhile int_space (rev ds) = rev ds"
    using assms(1) by (cases "rev ds") (auto simp: last_rev hd_rev dest: arg_cong[where f=hd])
  ultimately show ?thesis by simp
qed

lemma int_digits_digits:
  assumes "ds \<noteq> []" "\<forall>c\<in>set ds. is_digit c"
  shows "int_digits s ds =
    (if max_str_digits < length ds then Inl (ValueError limit_message)
     else Inr (digits_value ds))"
proof -
  have t: "takeWhile (\<lambda>c. is_digit c \<or> c = CHR ''_'') ds = ds"
    using assms(2) by (simp add: takeWhile_eq_all_conv)
  have d: "dropWhile (\<lambda>c. is_digit c \<or> c = CHR ''_'') ds = []"
    using assms(2) by simp
  have f: "filter is_digit ds = ds" using assms(2) by (simp add: filter_id_conv)
  have b: "int_body ds" using assms by (rule int_body_digits)
  show ?thesis by (simp only: int_digits_def Let_def t d f) (simp add: b)
qed

lemma py_int_digits:
  assumes "ds \<noteq> []" "\<forall>c\<in>set ds. is_digit c"
  shows "py_int ds =
    (if max_str_digits < length ds then Inl (ValueError limit_message)
     else Inr (digits_value ds))"
proof -
  from assms obtain c cs where ds: "ds = c # cs" by (cases ds) auto
  have s: "c \<noteq> CHR ''-''" "c \<noteq> CHR ''+''" using assms(2) ds by (simp_all add: digit_not_sign)
  have "py_int ds = int_digits ds ds"
    unfolding py_int_def dropWhile_int_space_digits [OF assms]
    using s by (simp add: ds)
  then show ?thesis by (simp only: int_digits_digits [OF assms])
qed

lemma re_search_digits_none:
  "\<forall>c\<in>set s. \<not> is_digit c \<Longrightarrow> re_search_digits s = None"
  by (induction s) simp_all

lemma re_search_digits_first_run:
  "\<exists>c\<in>set s. is_digit c \<Longrightarrow> re_search_digits s = Some (first_digit_run s)"
  unfolding first_digit_run_def by (induction s) auto

lemma re_search_digits_Some:
  "re_search_digits s = Some m \<Longrightarrow> m \<noteq> [] \<and> (\<forall>c\<in>set m. is_digit c)"
  by (induction s) (auto split: if_splits dest: set_takeWhileD)

lemma first_digit_run_digits: "\<forall>c\<in>set (first_digit_run s). is_digit c"
  by (auto simp: first_digit_run_def dest: set_takeWhileD)

lemma first_digit_run_none: "\<forall>c\<in>set s. \<not> is_digit c \<Longrightarrow> first_digit_run s = []"
proof -
  assume "\<forall>c\<in>set s. \<not> is_digit c"
  then have d: "dropWhile (\<lambda>c. \<not> is_digit c) s = []" by simp
  show ?thesis unfolding first_digit_run_def d by simp
qed

lemma first_digit_run_decomposed:
  assumes "\<forall>c\<in>set pre. \<not> is_digit c" "\<forall>c\<in>set run. is_digit c"
    "post = [] \<or> \<not> is_digit (hd post)" "run \<noteq> []"
  shows "first_digit_run (pre @ run @ post) = run"
proof -
  have "dropWhile (\<lambda>c. \<not> is_digit c) (pre @ run @ post)
      = dropWhile (\<lambda>c. \<not> is_digit c) (run @ post)"
    using assms(1) by simp
  also have "\<dots> = run @ post"
    using assms(2,4) by (cases run) simp_all
  finally have "first_digit_run (pre @ run @ post) = takeWhile is_digit (run @ post)"
    by (simp add: first_digit_run_def)
  also have "\<dots> = run"
    using assms(2,3) by (cases post) (simp_all add: takeWhile_append2)
  finally show ?thesis .
qed

text \<open>The parser on every string, by the length of the first digit run.\<close>

lemma parse_seat_distance_eq:
  "parse_seat_distance s =
     (if max_str_digits < length (first_digit_run s) then Inl (ValueError limit_message)
      else Inr (decimal_value (first_digit_run s)))"
proof (cases "\<exists>c\<in>set s. is_digit c")
  case False
  then have "re_search_digits s = None" "first_digit_run s = []"
    by (simp_all add: re_search_digits_none first_digit_run_none)
  then show ?thesis by (simp add: parse_seat_distance_def)
next
  case True
  then have r: "re_search_digits s = Some (first_digit_run s)"
    by (rule re_search_digits_first_run)
  from re_search_digits_Some [OF r]
  have "first_digit_run s \<noteq> []" "\<forall>c\<in>set (first_digit_run s). is_digit c" by blast+
  then have "py_int (first_digit_run s) =
    (if max_str_digits < length (first_digit_run s) then Inl (ValueError limit_message)
     else Inr (digits_value (first_digit_run s)))"
    by (rule py_int_digits)
  then show ?thesis
    by (simp only: parse_seat_distance_def r option.case digits_value_decimal)
qed

lemma parse_seat_distance_short:
  "length (first_digit_run s) \<le> max_str_digits \<Longrightarrow>
     parse_seat_distance s = Inr (decimal_value (first_digit_run s))"
  by (simp add: parse_seat_distance_eq)

lemma parse_seat_distance_long:
  "max_str_digits < length (first_digit_run s) \<Longrightarrow>
     parse_seat_distance s = Inl (ValueError limit_message)"
  by (simp add: parse_seat_distance_eq)

lemma parse_seat_distance_Inr:
  "parse_seat_distance s = Inr n \<Longrightarrow>
     length (first_digit_run s) \<le> max_str_digits \<and> n = decimal_value (first_digit_run s)
     \<and> 0 \<le> n"
  using first_digit_run_digits [of s]
  by (auto simp: parse_seat_distance_eq decimal_value_nonneg split: if_splits)

lemma parse_seat_distance_Inl:
  "parse_seat_distance s = Inl e \<Longrightarrow>
     max_str_digits < length (first_digit_run s) \<and> e = ValueError limit_message"
  by (auto simp: parse_seat_distance_eq split: if_splits)

text \<open>A label of one letter and 4301 zeros.\<close>

lemma long_label_run:
  "first_digit_run (''B'' @ replicate 4301 (CHR ''0'')) = replicate 4301 (CHR ''0'')"
proof -
  have "first_digit_run (''B'' @ replicate 4301 (CHR ''0'') @ []) = replicate 4301 (CHR ''0'')"
    by (rule first_digit_run_decomposed) (simp_all add: is_digit_def)
  then show ?thesis by simp
qed

text \<open>
  Claim C2, as stated, fails: the parser raises on a label whose first digit run is
  longer than the interpreter's limit on integer string conversion. The label of
  \<open>B\<close> and 4301 zeros makes \<^verbatim>\<open>int\<close> raise \<^verbatim>\<open>ValueError\<close>.
\<close>

theorem parse_seat_distance_long_run_raises:
  "parse_seat_distance (''B'' @ replicate 4301 (CHR ''0'')) = Inl (ValueError limit_message)"
proof -
  have "max_str_digits < length (first_digit_run (''B'' @ replicate 4301 (CHR ''0'')))"
    by (simp only: long_label_run length_replicate max_str_digits_def)
  then show ?thesis by (rule parse_seat_distance_long)
qed

text \<open>
  Claim C2, amended. For every string whose first maximal run of decimal digits has at
  most 4300 digits, \<open>parse_seat_distance\<close> returns the integer value of that run, a
  non-negative integer: when the string is a digit-free prefix, then a non-empty run of
  at most 4300 digits, then a rest that is empty or starts with a non-digit, the
  result is the value of that run. A string without digits gives 0. On a string whose
  first digit run has more than 4300 digits the parser raises \<^verbatim>\<open>ValueError\<close>. In
  particular "A1" gives 1, "B20" gives 20, "" gives 0, "ABC" gives 0 and "123" gives
  123.
\<close>

theorem parse_seat_distance_bounded_run:
  "(\<forall>pre run post.
       (\<forall>c\<in>set pre. \<not> is_digit c) \<and> run \<noteq> [] \<and> (\<forall>c\<in>set run. is_digit c)
         \<and> (post = [] \<or> \<not> is_digit (hd post)) \<and> length run \<le> max_str_digits
       \<longrightarrow> parse_seat_distance (pre @ run @ post) = Inr (decimal_value run))
   \<and> (\<forall>s. (\<exists>c\<in>set s. is_digit c) \<and> length (first_digit_run s) \<le> max_str_digits \<longrightarrow>
         parse_seat_distance s = Inr (decimal_value (first_digit_run s)))
   \<and> (\<forall>s. (\<forall>c\<in>set s. \<not> is_digit c) \<longrightarrow> parse_seat_distance s = Inr 0)
   \<and> (\<forall>s. length (first_digit_run s) \<le> max_str_digits \<longrightarrow>
         (\<exists>n. parse_seat_distance s = Inr n \<and> 0 \<le> n))
   \<and> (\<forall>s. max_str_digits < length (first_digit_run s) \<longrightarrow>
         parse_seat_distance s = Inl (ValueError limit_message))
   \<and> max_str_digits = 4300
   \<and> parse_seat_distance ''A1'' = Inr 1
   \<and> parse_seat_distance ''B20'' = Inr 20
   \<and> parse_seat_distance '''' = Inr 0
   \<and> parse_seat_distance ''ABC'' = Inr 0
   \<and> parse_seat_distance ''123'' = Inr 123"
proof -
  have run: "parse_seat_distance (pre @ run @ post) = Inr (decimal_value run)"
    if "\<forall>c\<in>set pre. \<not> is_digit c" "run \<noteq> []" "\<forall>c\<in>set run. is_digit c"
       "post = [] \<or> \<not> is_digit (hd post)" "length run \<le> max_str_digits" for pre run post
  proof -
    have "first_digit_run (pre @ run @ post) = run"
      using that(1,3,4,2) by (rule first_digit_run_decomposed)
    with that(5) parse_seat_distance_short [of "pre @ run @ post"] show ?thesis by simp
  qed
  have none: "parse_seat_distance s = Inr 0" if "\<forall>c\<in>set s. \<not> is_digit c" for s
    using first_digit_run_none [OF that] by (simp add: parse_seat_distance_eq)
  have short: "\<exists>n. parse_seat_distance s = Inr n \<and> 0 \<le> n"
    if "length (first_digit_run s) \<le> max_str_digits" for s
    using parse_seat_distance_short [OF that] first_digit_run_digits [of s]
    by (simp add: decimal_value_nonneg)
  have k1: "\<forall>pre run post.
       (\<forall>c\<in>set pre. \<not> is_digit c) \<and> run \<noteq> [] \<and> (\<forall>c\<in>set run. is_digit c)
         \<and> (post = [] \<or> \<not> is_digit (hd post)) \<and> length run \<le> max_str_digits
       \<longrightarrow> parse_seat_distance (pre @ run @ post) = Inr (decimal_value run)"
    by (intro allI impI, elim conjE) (rule run)
  have k2: "\<forall>s. (\<exists>c\<in>set s. is_digit c) \<and> length (first_digit_run s) \<le> max_str_digits \<longrightarrow>
         parse_seat_distance s = Inr (decimal_value (first_digit_run s))"
    by (intro allI impI, elim conjE) (rule parse_seat_distance_short)
  have k3: "\<forall>s. (\<forall>c\<in>set s. \<not> is_digit c) \<longrightarrow> parse_seat_distance s = Inr 0"
    by (intro allI impI) (rule none)
  have k4: "\<forall>s. length (first_digit_run s) \<le> max_str_digits \<longrightarrow>
         (\<exists>n. parse_seat_distance s = Inr n \<and> 0 \<le> n)"
    by (intro allI impI) (rule short)
  have k5: "\<forall>s. max_str_digits < length (first_digit_run s) \<longrightarrow>
         parse_seat_distance s = Inl (ValueError limit_message)"
    by (intro allI impI) (rule parse_seat_distance_long)
  have k6: "max_str_digits = 4300" by (rule max_str_digits_def)
  have ex: "parse_seat_distance ''A1'' = Inr 1" "parse_seat_distance ''B20'' = Inr 20"
    "parse_seat_distance '''' = Inr 0" "parse_seat_distance ''ABC'' = Inr 0"
    "parse_seat_distance ''123'' = Inr 123"
    by (simp_all add: parse_seat_distance_eq first_digit_run_def is_digit_def digit_value_def
        max_str_digits_def)
  from k1 k2 k3 k4 k5 k6 ex show ?thesis by (intro conjI)
qed

theorem parse_seat_distance_bounded_run_witness:
  "parse_seat_distance (''Row '' @ ''15'' @ ''B7'') = Inr 15
   \<and> parse_seat_distance ''C2,D4'' = Inr 2
   \<and> parse_seat_distance ''X'' = Inr 0
   \<and> parse_seat_distance (replicate 4301 (CHR ''7'')) = Inl (ValueError limit_message)"
proof -
  note t = parse_seat_distance_bounded_run
  have a: "(\<forall>c\<in>set ''Row ''. \<not> is_digit c) \<and> ''15'' \<noteq> [] \<and> (\<forall>c\<in>set ''15''. is_digit c)
         \<and> (''B7'' = [] \<or> \<not> is_digit (hd ''B7'')) \<and> length ''15'' \<le> max_str_digits"
    by (simp add: is_digit_def max_str_digits_def)
  have r: "first_digit_run ''C2,D4'' = ''2''"
    by (simp add: first_digit_run_def is_digit_def)
  have b: "(\<exists>c\<in>set ''C2,D4''. is_digit c) \<and> length (first_digit_run ''C2,D4'') \<le> max_str_digits"
    by (simp add: r) (simp add: is_digit_def max_str_digits_def)
  have c: "\<forall>c\<in>set ''X''. \<not> is_digit c" by (simp add: is_digit_def)
  have l: "first_digit_run (replicate 4301 (CHR ''7'')) = replicate 4301 (CHR ''7'')"
  proof -
    have "first_digit_run ([] @ replicate 4301 (CHR ''7'') @ []) = replicate 4301 (CHR ''7'')"
      by (rule first_digit_run_decomposed) (simp_all add: is_digit_def)
    then show ?thesis by simp
  qed
  have d: "max_str_digits < length (first_digit_run (replicate 4301 (CHR ''7'')))"
    by (simp only: l length_replicate max_str_digits_def)
  have v: "decimal_value ''15'' = 15" by (simp add: digit_value_def)
  have w: "decimal_value (first_digit_run ''C2,D4'') = 2"
    by (simp add: r digit_value_def)
  from t [THEN conjunct1, THEN spec, THEN spec, THEN spec, THEN mp, OF a]
  have 1: "parse_seat_distance (''Row '' @ ''15'' @ ''B7'') = Inr 15" by (simp only: v)
  from t [THEN conjunct2, THEN conjunct1, THEN spec, THEN mp, OF b]
  have 2: "parse_seat_distance ''C2,D4'' = Inr 2" by (simp only: w)
  from t [THEN conjunct2, THEN conjunct2, THEN conjunct1, THEN spec, THEN mp, OF c]
  have 3: "parse_seat_distance ''X'' = Inr 0" .
  from t [THEN conjunct2, THEN conjunct2, THEN conjunct2, THEN conjunct2, THEN conjunct1,
      THEN spec, THEN mp, OF d]
  have 4: "parse_seat_distance (replicate 4301 (CHR ''7'')) = Inl (ValueError limit_message)" .
  from 1 2 3 4 show ?thesis by (intro conjI)
qed

section \<open>The ordering operation\<close>

lemma length_enumerate_from: "length (enumerate_from i xs) = length xs"
  by (induction xs arbitrary: i) simp_all

lemma map_snd_enumerate_from: "map snd (enumerate_from i xs) = xs"
  by (induction xs arbitrary: i) simp_all

lemma map_fst_enumerate_from: "map fst (enumerate_from i xs) = [i..i + int (length xs) - 1]"
proof (induction xs arbitrary: i)
  case Nil
  then show ?case by simp
next
  case (Cons x xs)
  have "[i..i + int (length (x # xs)) - 1] = i # [i + 1..i + 1 + int (length xs) - 1]"
    by (subst upto_rec1) (simp_all add: algebra_simps)
  with Cons show ?case by simp
qed

lemma length_sorted_bookings: "length (sorted_bookings self) = length (bookings self)"
  by (simp add: sorted_bookings_def)

lemma numbered_ids:
  "map snd (map (\<lambda>(i, b). (i, booking_id b)) (enumerate_from k xs)) = map booking_id xs"
  by (induction xs arbitrary: k) simp_all

lemma numbered_numbers:
  "map fst (map (\<lambda>(i, b). (i, booking_id b)) ys) = map fst ys"
  by (induction ys) auto

lemma sequence_ids:
  "map snd (fst (generate_boarding_sequence self)) = map booking_id (sorted_bookings self)"
  by (simp add: generate_boarding_sequence_def numbered_ids sorted_bookings_def del: map_map)

lemma sequence_numbers:
  "map fst (fst (generate_boarding_sequence self)) = [1..int (length (bookings self))]"
  by (simp add: generate_boarding_sequence_def numbered_numbers map_fst_enumerate_from
      length_sorted_bookings del: map_map)

text \<open>
  Claim C1. The ordering operation sorts the bookings ascending on the key
  (- priority, identifier): the sorted list is a permutation of the collection, its keys
  are in ascending lexicographic order, the identifiers of the output are those of the
  sorted list in its order, and whenever a booking stands before another in it, its
  priority is greater, or the priorities are equal and its identifier is not greater.
\<close>

theorem generate_boarding_sequence_order:
  "mset (sorted_bookings self) = mset (bookings self)
   \<and> sorted (map sort_key_of (sorted_bookings self))
   \<and> map snd (fst (generate_boarding_sequence self)) = map booking_id (sorted_bookings self)
   \<and> (\<forall>i j. i < j \<and> j < length (sorted_bookings self) \<longrightarrow>
         min_distance (sorted_bookings self ! i) > min_distance (sorted_bookings self ! j)
         \<or> (min_distance (sorted_bookings self ! i) = min_distance (sorted_bookings self ! j)
            \<and> booking_id (sorted_bookings self ! i) \<le> booking_id (sorted_bookings self ! j)))"
proof -
  have m: "mset (sorted_bookings self) = mset (bookings self)"
    by (simp add: sorted_bookings_def)
  have s: "sorted (map sort_key_of (sorted_bookings self))"
    by (simp add: sorted_bookings_def)
  have p: "min_distance (sorted_bookings self ! i) > min_distance (sorted_bookings self ! j)
         \<or> (min_distance (sorted_bookings self ! i) = min_distance (sorted_bookings self ! j)
            \<and> booking_id (sorted_bookings self ! i) \<le> booking_id (sorted_bookings self ! j))"
    if "i < j" "j < length (sorted_bookings self)" for i j
  proof -
    from s that have "map sort_key_of (sorted_bookings self) ! i
        \<le> map sort_key_of (sorted_bookings self) ! j"
      by (simp add: sorted_iff_nth_mono_less del: nth_map)
    with that have "sort_key_of (sorted_bookings self ! i) \<le> sort_key_of (sorted_bookings self ! j)"
      by simp
    then show ?thesis by (auto simp: sort_key_of_def)
  qed
  from m s sequence_ids p show ?thesis by blast
qed

theorem generate_boarding_sequence_order_witness:
  "fst (generate_boarding_sequence
      \<lparr>bookings = [\<lparr>booking_id = 105, seats = [''A10''], min_distance = 10\<rparr>,
                   \<lparr>booking_id = 101, seats = [''C10''], min_distance = 10\<rparr>,
                   \<lparr>booking_id = 120, seats = [''A20''], min_distance = 20\<rparr>]\<rparr>)
     = [(1, 120), (2, 101), (3, 105)]
   \<and> min_distance (sorted_bookings
      \<lparr>bookings = [\<lparr>booking_id = 105, seats = [''A10''], min_distance = 10\<rparr>,
                   \<lparr>booking_id = 101, seats = [''C10''], min_distance = 10\<rparr>,
                   \<lparr>booking_id = 120, seats = [''A20''], min_distance = 20\<rparr>]\<rparr> ! 0)
     > min_distance (sorted_bookings
      \<lparr>bookings = [\<lparr>booking_id = 105, seats = [''A10''], min_distance = 10\<rparr>,
                   \<lparr>booking_id = 101, seats = [''C10''], min_distance = 10\<rparr>,
                   \<lparr>booking_id = 120, seats = [''A20''], min_distance = 20\<rparr>]\<rparr> ! 1)"
  using generate_boarding_sequence_order [of
      "\<lparr>bookings = [\<lparr>booking_id = 105, seats = [''A10''], min_distance = 10\<rparr>,
                   \<lparr>booking_id = 101, seats = [''C10''], min_distance = 10\<rparr>,
                   \<lparr>booking_id = 120, seats = [''A20''], min_distance = 20\<rparr>]\<rparr>"]
  by (simp add: generate_boarding_sequence_def sorted_bookings_def sort_key_of_def)

text \<open>
  Claim C4. For every collection the output has one entry per booking: as many entries
  as bookings, sequence numbers 1, 2, ..., n in output order, and the identifiers of
  the output are the identifiers of the collection, each as often as it occurs there.
  The operation returns for every collection, and the empty collection gives the empty
  output.
\<close>

theorem generate_boarding_sequence_numbering:
  "length (fst (generate_boarding_sequence self)) = length (bookings self)
   \<and> map fst (fst (generate_boarding_sequence self)) = [1..int (length (bookings self))]
   \<and> mset (map snd (fst (generate_boarding_sequence self))) = mset (map booking_id (bookings self))
   \<and> fst (generate_boarding_sequence (self\<lparr>bookings := []\<rparr>)) = []"
proof -
  have l: "length (fst (generate_boarding_sequence self)) = length (bookings self)"
    by (simp add: generate_boarding_sequence_def length_enumerate_from length_sorted_bookings)
  have "mset (map booking_id (sorted_bookings self)) = mset (map booking_id (bookings self))"
    by (simp add: sorted_bookings_def)
  then have m: "mset (map snd (fst (generate_boarding_sequence self)))
      = mset (map booking_id (bookings self))"
    by (simp only: sequence_ids)
  have e: "fst (generate_boarding_sequence (self\<lparr>bookings := []\<rparr>)) = []"
    by (simp add: generate_boarding_sequence_def)
  from l sequence_numbers m e show ?thesis by blast
qed

text \<open>
  Claim C8. The ordering operation leaves the instance, and with it the booking
  collection, as it found it, and a second call on the instance it leaves returns the
  same output as the first.
\<close>

theorem generate_boarding_sequence_pure:
  "snd (generate_boarding_sequence self) = self
   \<and> generate_boarding_sequence (snd (generate_boarding_sequence self))
       = generate_boarding_sequence self"
  by (simp add: generate_boarding_sequence_def)

section \<open>Building bookings: the priority reduction\<close>

lemma split_from_nonempty: "split_from sep acc s \<noteq> []"
  by (induction s arbitrary: acc) simp_all

lemma py_split_nonempty: "py_split s sep \<noteq> []"
  by (simp add: py_split_def split_from_nonempty)

lemma split_from_pieces: "p \<in> set (split_from sep acc s) \<Longrightarrow> set p \<subseteq> set acc \<union> set s"
proof (induction s arbitrary: acc)
  case Nil
  then show ?case by simp
next
  case (Cons c cs)
  show ?case
  proof (cases "c = sep")
    case True
    with Cons.prems have "p = rev acc \<or> p \<in> set (split_from sep [] cs)" by simp
    then show ?thesis using Cons.IH [of "[]"] by auto
  next
    case False
    with Cons.prems have "p \<in> set (split_from sep (c # acc) cs)" by simp
    from Cons.IH [OF this] show ?thesis by auto
  qed
qed

lemma py_split_pieces: "p \<in> set (py_split s sep) \<Longrightarrow> set p \<subseteq> set s"
  using split_from_pieces [of p sep "[]" s] by (simp add: py_split_def)

lemma set_strip: "set (strip s) \<subseteq> set s"
proof -
  have "set (dropWhile isspace (rev (dropWhile isspace s))) \<subseteq> set (rev (dropWhile isspace s))"
    by (rule set_dropWhileD[THEN subsetI]) 
  also have "\<dots> \<subseteq> set s" by (auto dest: set_dropWhileD)
  finally show ?thesis by (simp add: strip_def)
qed

lemma map_result_total:
  assumes "\<And>x. x \<in> set xs \<Longrightarrow> \<exists>y. f x = Inr y \<and> P x y"
  shows "\<exists>ys. map_result f xs = Inr ys \<and> list_all2 P xs ys"
  using assms
proof (induction xs)
  case Nil
  then show ?case by simp
next
  case (Cons x xs)
  then obtain y where y: "f x = Inr y" "P x y" by auto
  from Cons obtain ys where ys: "map_result f xs = Inr ys" "list_all2 P xs ys" by auto
  from y ys show ?case by simp
qed

lemma map_result_pointwise:
  "map_result f xs = Inr ys \<Longrightarrow> list_all2 (\<lambda>x y. f x = Inr y) xs ys"
  by (induction xs arbitrary: ys) (auto split: sum.splits)

lemma map_result_length: "map_result f xs = Inr ys \<Longrightarrow> length ys = length xs"
proof -
  assume "map_result f xs = Inr ys"
  from map_result_pointwise [OF this] have "length xs = length ys"
    by (rule list_all2_lengthD)
  then show ?thesis by simp
qed

lemma map_result_Inl: "map_result f xs = Inl e \<Longrightarrow> \<exists>x\<in>set xs. f x = Inl e"
  by (induction xs) (auto split: sum.splits)

lemma py_max_Max: "ds \<noteq> [] \<Longrightarrow> py_max ds = Inr (Max (set ds))"
proof (cases ds)
  case Nil
  assume "ds \<noteq> []"
  with Nil show ?thesis by simp
next
  case (Cons x xs)
  have "fold max xs x = Max (set (x # xs))" by (rule Max.set_eq_fold [symmetric])
  then show ?thesis by (simp only: Cons py_max.simps)
qed

lemma furthest_distance_Max: "ds \<noteq> [] \<Longrightarrow> furthest_distance ds = Inr (Max (set ds))"
  by (simp add: furthest_distance_def py_max_Max)

lemma furthest_distance_Nil: "furthest_distance [] = Inr 0"
  by (simp add: furthest_distance_def)

text \<open>When a booking is constructed, and what every constructed booking satisfies.\<close>

lemma seats_within_limit_iff:
  "seats_within_limit s =
     (\<forall>seat\<in>set (map strip (py_split s (CHR '',''))).
        length (first_digit_run seat) \<le> max_str_digits)"
  by (simp add: seats_within_limit_def list_all_iff)

lemma new_booking_ok:
  assumes "seats_within_limit s"
  shows "\<exists>b ds. new_booking bid s = Inr b \<and> booking_id b = bid
     \<and> seats b = map strip (py_split s (CHR '',''))
     \<and> map_result parse_seat_distance (seats b) = Inr ds \<and> ds \<noteq> []
     \<and> min_distance b = Max (set ds)"
proof -
  let ?seats = "map strip (py_split s (CHR '',''))"
  have "\<exists>y. parse_seat_distance x = Inr y \<and> True" if "x \<in> set ?seats" for x
    using that assms parse_seat_distance_short [of x]
    by (auto simp: seats_within_limit_iff)
  then have "\<exists>ds. map_result parse_seat_distance ?seats = Inr ds \<and> list_all2 (\<lambda>x y. True) ?seats ds"
    by (intro map_result_total)
  then obtain ds where ds: "map_result parse_seat_distance ?seats = Inr ds" by blast
  from map_result_length [OF ds] have ne: "ds \<noteq> []"
    using py_split_nonempty [of s "CHR '',''"] by auto
  show ?thesis using ds ne
    by (simp add: new_booking_def Let_def furthest_distance_Max)
qed

lemma new_booking_fail:
  assumes "\<not> seats_within_limit s"
  shows "new_booking bid s = Inl (ValueError limit_message)"
proof -
  let ?seats = "map strip (py_split s (CHR '',''))"
  from assms obtain seat where seat: "seat \<in> set ?seats"
    "max_str_digits < length (first_digit_run seat)"
    by (auto simp: seats_within_limit_iff not_le)
  show ?thesis
  proof (cases "map_result parse_seat_distance ?seats")
    case (Inl e)
    from map_result_Inl [OF Inl] obtain x where "parse_seat_distance x = Inl e" by blast
    then have "e = ValueError limit_message" by (simp add: parse_seat_distance_Inl)
    with Inl show ?thesis by (simp add: new_booking_def Let_def)
  next
    case (Inr ds)
    from map_result_pointwise [OF Inr] seat(1)
    obtain d where "parse_seat_distance seat = Inr d"
      by (auto simp: list_all2_conv_all_nth in_set_conv_nth)
    with parse_seat_distance_long [OF seat(2)] show ?thesis by simp
  qed
qed

lemma new_booking_Inr:
  assumes "new_booking bid s = Inr b"
  shows "seats_within_limit s \<and> booking_id b = bid
     \<and> seats b = map strip (py_split s (CHR '',''))
     \<and> (\<exists>ds. map_result parse_seat_distance (seats b) = Inr ds \<and> ds \<noteq> []
           \<and> min_distance b = Max (set ds))"
proof -
  have w: "seats_within_limit s"
    using new_booking_fail [of s bid] assms by (cases "seats_within_limit s") simp_all
  from new_booking_ok [OF w, of bid] assms w show ?thesis by auto
qed

lemma new_booking_error: "new_booking bid s = Inl e \<Longrightarrow> e = ValueError limit_message"
  using new_booking_ok [of s bid] new_booking_fail [of s bid]
  by (cases "seats_within_limit s") auto

lemma new_booking_priority:
  assumes "new_booking bid s = Inr b"
  shows "\<exists>ds. map_result parse_seat_distance (seats b) = Inr ds \<and> ds \<noteq> []
     \<and> min_distance b = Max (set ds)"
  using new_booking_Inr [OF assms] by blast

lemma load_data_loop_invariant:
  assumes "\<forall>b\<in>set (bookings self). P b" "\<And>bid s b. new_booking bid s = Inr b \<Longrightarrow> P b"
  shows "\<forall>b\<in>set (bookings (snd (load_data_loop booking_data self))). P b"
  using assms(1)
proof (induction booking_data arbitrary: self)
  case Nil
  then show ?case by simp
next
  case (Cons x rest)
  obtain bid s where x: "x = (bid, s)" by (cases x)
  show ?case
  proof (cases "new_booking bid s")
    case (Inl e)
    with Cons.prems show ?thesis by (simp add: x)
  next
    case (Inr b)
    have "\<forall>b\<in>set (bookings (self\<lparr>bookings := bookings self @ [b]\<rparr>)). P b"
      using Cons.prems assms(2)[OF Inr] by simp
    from Cons.IH[OF this] show ?thesis by (simp add: x Inr)
  qed
qed

lemma load_lines_invariant:
  assumes "\<forall>b\<in>set (bookings self). P b" "\<And>bid s b. new_booking bid s = Inr b \<Longrightarrow> P b"
  shows "\<forall>b\<in>set (bookings (snd (load_lines ls self))). P b"
  using assms(1)
proof (induction ls arbitrary: self)
  case Nil
  then show ?case by simp
next
  case (Cons raw rest)
  have step: "\<forall>b\<in>set (bookings (snd (load_lines rest (self\<lparr>bookings := bookings self @ [b]\<rparr>)))). P b"
    if "new_booking bid s = Inr b" for bid s b
    using Cons.IH [of "self\<lparr>bookings := bookings self @ [b]\<rparr>"] Cons.prems assms(2)[OF that]
    by simp
  show ?case using Cons.IH[OF Cons.prems] Cons.prems step
    by (auto split: sum.splits)
qed

lemma load_file_invariant:
  assumes "\<And>bid s b. new_booking bid s = Inr b \<Longrightarrow> P b"
  shows "\<forall>b\<in>set (bookings (snd (load_bookings_from_file fs file_path self))). P b"
proof (cases "open_readlines fs file_path")
  case (Inl e)
  then show ?thesis by (simp add: load_bookings_from_file_def)
next
  case (Inr ls)
  have "\<forall>b\<in>set (bookings (snd (load_lines (record_lines ls) (self\<lparr>bookings := []\<rparr>)))). P b"
    by (rule load_lines_invariant) (simp_all add: assms)
  then show ?thesis
    by (cases "load_lines (record_lines ls) (self\<lparr>bookings := []\<rparr>)")
       (auto simp: load_bookings_from_file_def Inr split: option.splits)
qed

text \<open>
  Claim C3. Every booking that a load operation (from data or from a file, whether the
  load ends normally or not) puts into the collection has as its priority the maximum
  of the parsed distances of its seats, a list that is not empty. The reduction itself
  returns 0 on the empty list without raising, and the maximum on any other list.
\<close>

theorem priority_is_furthest_seat:
  "(\<forall>b\<in>set (bookings (snd (load_bookings_from_data booking_data self))).
      \<exists>ds. map_result parse_seat_distance (seats b) = Inr ds \<and> ds \<noteq> []
        \<and> min_distance b = Max (set ds))
   \<and> (\<forall>b\<in>set (bookings (snd (load_bookings_from_file fs file_path self))).
      \<exists>ds. map_result parse_seat_distance (seats b) = Inr ds \<and> ds \<noteq> []
        \<and> min_distance b = Max (set ds))
   \<and> furthest_distance [] = Inr 0
   \<and> (\<forall>ds. ds \<noteq> [] \<longrightarrow> furthest_distance ds = Inr (Max (set ds)))"
proof -
  have d: "\<forall>b\<in>set (bookings (snd (load_bookings_from_data booking_data self))).
      \<exists>ds. map_result parse_seat_distance (seats b) = Inr ds \<and> ds \<noteq> []
        \<and> min_distance b = Max (set ds)"
    unfolding load_bookings_from_data_def
    by (rule load_data_loop_invariant) (simp_all add: new_booking_priority)
  have f: "\<forall>b\<in>set (bookings (snd (load_bookings_from_file fs file_path self))).
      \<exists>ds. map_result parse_seat_distance (seats b) = Inr ds \<and> ds \<noteq> []
        \<and> min_distance b = Max (set ds)"
    by (rule load_file_invariant) (simp add: new_booking_priority)
  from d f furthest_distance_Nil furthest_distance_Max show ?thesis by blast
qed

theorem priority_is_furthest_seat_witness:
  "min_distance (hd (bookings (snd (load_bookings_from_data [(120, ''A20,C2'')] \<lparr>bookings = []\<rparr>)))) = 20
   \<and> furthest_distance [20, 2] = Inr 20"
proof -
  let ?b = "\<lparr>booking_id = 120, seats = [''A20'', ''C2''], min_distance = 20\<rparr>"
  have l: "bookings (snd (load_bookings_from_data [(120, ''A20,C2'')] \<lparr>bookings = []\<rparr>)) = [?b]"
    by code_simp
  have p: "map_result parse_seat_distance [''A20'', ''C2''] = Inr [20, 2]"
    by code_simp
  note t = priority_is_furthest_seat [of "[(120, ''A20,C2'')]" "\<lparr>bookings = []\<rparr>" no_files "''f''"]
  from t l have "\<exists>ds. map_result parse_seat_distance (seats ?b) = Inr ds \<and> ds \<noteq> []
        \<and> min_distance ?b = Max (set ds)"
    by simp
  then have a: "min_distance ?b = Max (set [20, 2])" using p by auto
  from t have "furthest_distance [20, 2] = Inr (Max (set [20, 2]))" by blast
  then show ?thesis using l by simp
qed

section \<open>Loading from in-memory data\<close>

lemma parse_digit_free: "\<forall>c\<in>set s. \<not> is_digit c \<Longrightarrow> parse_seat_distance s = Inr 0"
  using first_digit_run_none [of s] by (simp add: parse_seat_distance_eq)

lemma new_booking_digit_free:
  assumes "new_booking bid s = Inr b" "\<forall>c\<in>set s. \<not> is_digit c"
  shows "min_distance b = 0"
proof -
  from new_booking_Inr [OF assms(1)] obtain ds where
    s: "seats b = map strip (py_split s (CHR '',''))" and
    ds: "map_result parse_seat_distance (seats b) = Inr ds" "ds \<noteq> []" and
    m: "min_distance b = Max (set ds)" by auto
  have free: "\<forall>c\<in>set x. \<not> is_digit c" if "x \<in> set (seats b)" for x
  proof -
    from that s obtain p where "p \<in> set (py_split s (CHR '',''))" "x = strip p" by auto
    then have "set x \<subseteq> set s" using set_strip [of p] py_split_pieces [of p s] by auto
    with assms(2) show ?thesis by auto
  qed
  have "\<forall>d\<in>set ds. d = 0"
  proof
    fix d assume "d \<in> set ds"
    then obtain i where i: "i < length ds" "d = ds ! i" by (auto simp: in_set_conv_nth)
    from map_result_pointwise [OF ds(1)] i
    have l: "i < length (seats b)" and p: "parse_seat_distance (seats b ! i) = Inr d"
      by (simp_all add: list_all2_conv_all_nth)
    from l have "seats b ! i \<in> set (seats b)" by simp
    from parse_digit_free [OF free [OF this]] p show "d = 0" by simp
  qed
  with ds(2) have "set ds = {0}" by (cases ds) auto
  with m show ?thesis by simp
qed

lemma load_data_loop_ok:
  "\<forall>x\<in>set booking_data. seats_within_limit (snd x) \<Longrightarrow>
   \<exists>bs. load_data_loop booking_data self = (None, self\<lparr>bookings := bookings self @ bs\<rparr>)
     \<and> list_all2 (\<lambda>(bid, s) b. new_booking bid s = Inr b) booking_data bs"
proof (induction booking_data arbitrary: self)
  case Nil
  then show ?case by simp
next
  case (Cons x rest)
  obtain bid s where x: "x = (bid, s)" by (cases x)
  from Cons.prems x have "seats_within_limit s" by simp
  from new_booking_ok [OF this, of bid] obtain b where b: "new_booking bid s = Inr b" by auto
  from Cons.prems have "\<forall>x\<in>set rest. seats_within_limit (snd x)" by simp
  from Cons.IH [OF this, of "self\<lparr>bookings := bookings self @ [b]\<rparr>"] obtain bs where
    bs: "load_data_loop rest (self\<lparr>bookings := bookings self @ [b]\<rparr>)
           = (None, self\<lparr>bookings := bookings self @ b # bs\<rparr>)"
        "list_all2 (\<lambda>(bid, s) b. new_booking bid s = Inr b) rest bs"
    by auto
  show ?case
    by (rule exI [of _ "b # bs"]) (simp add: x b bs)
qed

lemma load_data_loop_fail_split:
  "fst (load_data_loop booking_data self) = Some e \<Longrightarrow>
     \<exists>pre x post. booking_data = pre @ x # post
       \<and> load_data_loop pre self = (None, snd (load_data_loop booking_data self))
       \<and> new_booking (fst x) (snd x) = Inl e"
proof (induction booking_data arbitrary: self)
  case Nil
  then show ?case by simp
next
  case (Cons y rest)
  obtain bid s where y: "y = (bid, s)" by (cases y)
  show ?case
  proof (cases "new_booking bid s")
    case (Inl e')
    with Cons.prems y have "e' = e" "load_data_loop (y # rest) self = (Some e, self)"
      by simp_all
    then have "y # rest = [] @ y # rest"
      "load_data_loop [] self = (None, snd (load_data_loop (y # rest) self))"
      "new_booking (fst y) (snd y) = Inl e"
      using Inl y by simp_all
    then show ?thesis by blast
  next
    case (Inr b)
    let ?s = "self\<lparr>bookings := bookings self @ [b]\<rparr>"
    have st: "load_data_loop (y # ls) self = load_data_loop ls ?s" for ls
      by (simp add: y Inr)
    with Cons.prems have "fst (load_data_loop rest ?s) = Some e" by simp
    from Cons.IH [OF this] obtain pre x post where
      p: "rest = pre @ x # post" "load_data_loop pre ?s = (None, snd (load_data_loop rest ?s))"
         "new_booking (fst x) (snd x) = Inl e" by blast
    have "y # rest = (y # pre) @ x # post" using p(1) by simp
    moreover have "load_data_loop (y # pre) self = (None, snd (load_data_loop (y # rest) self))"
      using p(2) by (simp only: st)
    ultimately show ?thesis using p(3) by blast
  qed
qed

lemma load_data_loop_fails:
  "\<exists>x\<in>set booking_data. \<not> seats_within_limit (snd x) \<Longrightarrow>
     fst (load_data_loop booking_data self) = Some (ValueError limit_message)"
proof (induction booking_data arbitrary: self)
  case Nil
  then show ?case by simp
next
  case (Cons y rest)
  obtain bid s where y: "y = (bid, s)" by (cases y)
  show ?case
  proof (cases "seats_within_limit s")
    case False
    from new_booking_fail [OF False, of bid] show ?thesis by (simp add: y)
  next
    case True
    from new_booking_ok [OF True, of bid] obtain b where b: "new_booking bid s = Inr b" by auto
    from True Cons.prems y have "\<exists>x\<in>set rest. \<not> seats_within_limit (snd x)" by auto
    from Cons.IH [OF this] show ?thesis by (simp add: y b)
  qed
qed

text \<open>Stripping changes nothing in a string that neither starts nor ends with
  whitespace, and splitting gives back a string without the separator.\<close>

lemma strip_id:
  assumes "s \<noteq> []" "\<not> isspace (hd s)" "\<not> isspace (last s)"
  shows "strip s = s"
proof -
  from assms have "dropWhile isspace s = s" by (cases s) simp_all
  moreover from assms have "dropWhile isspace (rev s) = rev s"
    by (cases "rev s") (auto simp: last_rev hd_rev dest: arg_cong [where f = hd])
  ultimately show ?thesis by (simp add: strip_def)
qed

lemma split_from_no_sep: "sep \<notin> set s \<Longrightarrow> split_from sep acc s = [rev acc @ s]"
  by (induction s arbitrary: acc) auto

lemma long_label_not_within_limit:
  "\<not> seats_within_limit (''B'' @ replicate 4301 (CHR ''0''))"
proof -
  let ?s = "''B'' @ replicate 4301 (CHR ''0'')"
  have "CHR '','' \<notin> set ?s" by simp
  then have p: "py_split ?s (CHR '','') = [?s]"
    by (simp add: py_split_def split_from_no_sep)
  have "strip ?s = ?s"
    by (rule strip_id) (simp_all add: isspace_def)
  then have "length (first_digit_run (strip ?s)) = 4301"
    by (simp only: long_label_run length_replicate)
  then show ?thesis
    by (simp only: seats_within_limit_iff p list.map list.set ball_simps max_str_digits_def) simp
qed

text \<open>
  Claim C9, as stated, fails: loading three pairs of which the second has a seat of
  \<open>B\<close> and 4301 zeros raises \<^verbatim>\<open>ValueError\<close> at that pair and leaves the booking of the
  first pair only.
\<close>

theorem load_bookings_from_data_long_seat_raises:
  "load_bookings_from_data
     [(1, ''A1''), (2, ''B'' @ replicate 4301 (CHR ''0'')), (3, ''C3'')] \<lparr>bookings = []\<rparr>
   = (Some (ValueError limit_message),
      \<lparr>bookings = [\<lparr>booking_id = 1, seats = [''A1''], min_distance = 1\<rparr>]\<rparr>)"
proof -
  have 1: "new_booking 1 ''A1'' = Inr \<lparr>booking_id = 1, seats = [''A1''], min_distance = 1\<rparr>"
    by code_simp
  have 2: "new_booking 2 (''B'' @ replicate 4301 (CHR ''0'')) = Inl (ValueError limit_message)"
    using long_label_not_within_limit by (rule new_booking_fail)
  show ?thesis
    by (simp only: load_bookings_from_data_def load_data_loop.simps 1 2 sum.case) simp
qed

lemma digit_free_within_limit:
  assumes "\<forall>c\<in>set s. \<not> is_digit c"
  shows "seats_within_limit s"
proof -
  have "length (first_digit_run seat) \<le> max_str_digits"
    if "seat \<in> set (map strip (py_split s (CHR '','')))" for seat
  proof -
    from that obtain p where "p \<in> set (py_split s (CHR '',''))" "seat = strip p" by auto
    then have "set seat \<subseteq> set s" using set_strip [of p] py_split_pieces [of p s] by auto
    with assms have "\<forall>c\<in>set seat. \<not> is_digit c" by auto
    from first_digit_run_none [OF this] show ?thesis by simp
  qed
  then show ?thesis by (simp only: seats_within_limit_iff) blast
qed

lemma new_booking_seats:
  "new_booking bid s = Inr b \<Longrightarrow>
     seats b \<noteq> [] \<and> (\<exists>ds. map_result parse_seat_distance (seats b) = Inr ds \<and> ds \<noteq> [])"
  using new_booking_Inr [of bid s b] py_split_nonempty [of s "CHR '',''"] by auto

text \<open>
  Claim C9, amended. Loading from in-memory data never raises for a list of pairs of
  an integer and a string in which every seats string is within the limit (no seat with
  a first digit run of more than 4300 digits); every string without a digit, the empty
  string among them, is within it. Every pair then gives exactly one booking, in
  order, with the pair's identifier and the stripped pieces of its string as seats, and
  a pair whose string has no digit gives a booking of priority 0. When some seats
  string is not within the limit the load raises \<^verbatim>\<open>ValueError\<close>. In every case,
  splitting any string gives at least one piece and no booking in the collection has
  an empty seat list, so the reduction never sees an empty list of distances.
\<close>

theorem load_bookings_from_data_within_limit:
  "((\<forall>x\<in>set booking_data. seats_within_limit (snd x)) \<longrightarrow>
      fst (load_bookings_from_data booking_data self) = None
      \<and> length (bookings (snd (load_bookings_from_data booking_data self))) = length booking_data
      \<and> map booking_id (bookings (snd (load_bookings_from_data booking_data self)))
          = map fst booking_data
      \<and> map seats (bookings (snd (load_bookings_from_data booking_data self)))
          = map (\<lambda>(bid, s). map strip (py_split s (CHR '',''))) booking_data
      \<and> (\<forall>k<length booking_data. (\<forall>c\<in>set (snd (booking_data ! k)). \<not> is_digit c) \<longrightarrow>
            min_distance (bookings (snd (load_bookings_from_data booking_data self)) ! k) = 0))
   \<and> ((\<exists>x\<in>set booking_data. \<not> seats_within_limit (snd x)) \<longrightarrow>
      fst (load_bookings_from_data booking_data self) = Some (ValueError limit_message))
   \<and> (\<forall>b\<in>set (bookings (snd (load_bookings_from_data booking_data self))).
         seats b \<noteq> []
         \<and> (\<exists>ds. map_result parse_seat_distance (seats b) = Inr ds \<and> ds \<noteq> []))
   \<and> (\<forall>s sep. py_split s sep \<noteq> [])
   \<and> (\<forall>s. (\<forall>c\<in>set s. \<not> is_digit c) \<longrightarrow> seats_within_limit s)"
proof -
  let ?g = "snd (load_bookings_from_data booking_data self)"
  have ok: "fst (load_bookings_from_data booking_data self) = None
      \<and> length (bookings ?g) = length booking_data
      \<and> map booking_id (bookings ?g) = map fst booking_data
      \<and> map seats (bookings ?g)
          = map (\<lambda>(bid, s). map strip (py_split s (CHR '',''))) booking_data
      \<and> (\<forall>k<length booking_data. (\<forall>c\<in>set (snd (booking_data ! k)). \<not> is_digit c) \<longrightarrow>
            min_distance (bookings ?g ! k) = 0)"
    if w: "\<forall>x\<in>set booking_data. seats_within_limit (snd x)"
  proof -
    from load_data_loop_ok [OF w, of "self\<lparr>bookings := []\<rparr>"] obtain bs where
      r: "load_bookings_from_data booking_data self = (None, self\<lparr>bookings := bs\<rparr>)" and
      a: "list_all2 (\<lambda>(bid, s) b. new_booking bid s = Inr b) booking_data bs"
      by (auto simp: load_bookings_from_data_def)
    have bk: "bookings ?g = bs" by (simp add: r)
    have len: "length bs = length booking_data" using a by (simp add: list_all2_lengthD)
    have nth: "new_booking (fst (booking_data ! k)) (snd (booking_data ! k)) = Inr (bs ! k)"
      if "k < length booking_data" for k
      using list_all2_nthD [OF a that] by (simp add: case_prod_beta)
    have c1: "fst (load_bookings_from_data booking_data self) = None" by (simp add: r)
    have c3: "map booking_id (bookings ?g) = map fst booking_data"
      unfolding bk
    proof (rule nth_equalityI)
      show "length (map booking_id bs) = length (map fst booking_data)" by (simp add: len)
      fix k assume "k < length (map booking_id bs)"
      then have k: "k < length booking_data" by (simp add: len)
      from new_booking_Inr [OF nth [OF k]]
      show "map booking_id bs ! k = map fst booking_data ! k" using k len by auto
    qed
    have c4: "map seats (bookings ?g)
         = map (\<lambda>(bid, s). map strip (py_split s (CHR '',''))) booking_data"
      unfolding bk
    proof (rule nth_equalityI)
      show "length (map seats bs)
          = length (map (\<lambda>(bid, s). map strip (py_split s (CHR '',''))) booking_data)"
        by (simp add: len)
      fix k assume "k < length (map seats bs)"
      then have k: "k < length booking_data" by (simp add: len)
      from new_booking_Inr [OF nth [OF k]]
      show "map seats bs ! k
          = map (\<lambda>(bid, s). map strip (py_split s (CHR '',''))) booking_data ! k"
        using k len by (auto simp: case_prod_beta)
    qed
    have c7: "\<forall>k<length booking_data. (\<forall>c\<in>set (snd (booking_data ! k)). \<not> is_digit c) \<longrightarrow>
           min_distance (bookings ?g ! k) = 0"
      using nth new_booking_digit_free by (auto simp: bk)
    from c1 len c3 c4 c7 show ?thesis unfolding bk by (intro conjI)
  qed
  have bad: "fst (load_bookings_from_data booking_data self) = Some (ValueError limit_message)"
    if "\<exists>x\<in>set booking_data. \<not> seats_within_limit (snd x)"
    unfolding load_bookings_from_data_def using that by (rule load_data_loop_fails)
  have inv: "\<forall>b\<in>set (bookings ?g). seats b \<noteq> []
         \<and> (\<exists>ds. map_result parse_seat_distance (seats b) = Inr ds \<and> ds \<noteq> [])"
    unfolding load_bookings_from_data_def
    by (rule load_data_loop_invariant) (simp_all add: new_booking_seats)
  have k1: "(\<forall>x\<in>set booking_data. seats_within_limit (snd x)) \<longrightarrow>
      fst (load_bookings_from_data booking_data self) = None
      \<and> length (bookings ?g) = length booking_data
      \<and> map booking_id (bookings ?g) = map fst booking_data
      \<and> map seats (bookings ?g)
          = map (\<lambda>(bid, s). map strip (py_split s (CHR '',''))) booking_data
      \<and> (\<forall>k<length booking_data. (\<forall>c\<in>set (snd (booking_data ! k)). \<not> is_digit c) \<longrightarrow>
            min_distance (bookings ?g ! k) = 0)"
    by (rule impI) (rule ok)
  have k2: "(\<exists>x\<in>set booking_data. \<not> seats_within_limit (snd x)) \<longrightarrow>
      fst (load_bookings_from_data booking_data self) = Some (ValueError limit_message)"
    by (rule impI) (rule bad)
  have k4: "\<forall>s sep. py_split s sep \<noteq> []"
    by (intro allI) (rule py_split_nonempty)
  have k5: "\<forall>s. (\<forall>c\<in>set s. \<not> is_digit c) \<longrightarrow> seats_within_limit s"
    by (intro allI impI) (rule digit_free_within_limit)
  from k1 k2 inv k4 k5 show ?thesis by (intro conjI)
qed

theorem load_bookings_from_data_within_limit_witness:
  "load_bookings_from_data [(7, ''''), (8, ''A1,X'')] \<lparr>bookings = []\<rparr>
     = (None, \<lparr>bookings = [\<lparr>booking_id = 7, seats = [''''], min_distance = 0\<rparr>,
                            \<lparr>booking_id = 8, seats = [''A1'', ''X''], min_distance = 1\<rparr>]\<rparr>)
   \<and> min_distance (bookings (snd (load_bookings_from_data [(7, ''''), (8, ''A1,X'')]
         \<lparr>bookings = []\<rparr>)) ! 0) = 0
   \<and> fst (load_bookings_from_data [(2, ''B'' @ replicate 4301 (CHR ''0''))] \<lparr>bookings = []\<rparr>)
       = Some (ValueError limit_message)"
proof -
  let ?d = "[(7 :: int, ''''), (8, ''A1,X'')]"
  let ?g = "\<lparr>bookings = []\<rparr>"
  note t = load_bookings_from_data_within_limit
  have l: "load_bookings_from_data ?d ?g
     = (None, \<lparr>bookings = [\<lparr>booking_id = 7, seats = [''''], min_distance = 0\<rparr>,
                            \<lparr>booking_id = 8, seats = [''A1'', ''X''], min_distance = 1\<rparr>]\<rparr>)"
    by code_simp
  have w: "\<forall>x\<in>set ?d. seats_within_limit (snd x)" by code_simp
  have h: "(0::nat) < length ?d \<and> (\<forall>c\<in>set (snd (?d ! 0)). \<not> is_digit c)"
    by simp
  from t [of ?d ?g, THEN conjunct1, THEN mp, OF w] h
  have a: "min_distance (bookings (snd (load_bookings_from_data ?d ?g)) ! 0) = 0"
    by blast
  have b: "\<exists>x\<in>set [(2 :: int, ''B'' @ replicate 4301 (CHR ''0''))]. \<not> seats_within_limit (snd x)"
    using long_label_not_within_limit by simp
  from t [of "[(2, ''B'' @ replicate 4301 (CHR ''0''))]" ?g, THEN conjunct2, THEN conjunct1,
      THEN mp, OF b]
  have c: "fst (load_bookings_from_data [(2, ''B'' @ replicate 4301 (CHR ''0''))] ?g)
       = Some (ValueError limit_message)" .
  from l a c show ?thesis by (intro conjI)
qed

section \<open>Loading from a file\<close>

lemma int_digits_error: "int_digits s body = Inl e \<Longrightarrow> \<exists>v. e = ValueError v"
  by (auto simp: int_digits_def Let_def split: if_splits)

lemma py_int_error: "py_int s = Inl e \<Longrightarrow> \<exists>v. e = ValueError v"
  by (auto simp: py_int_def split: list.splits if_splits sum.splits dest: int_digits_error)

lemma tab_fields_blank: "strip raw = [] \<Longrightarrow> length (tab_fields raw) < 2"
  by (simp add: tab_fields_def py_split_def)

lemma split_from_sep: "sep \<in> set s \<Longrightarrow> 2 \<le> length (split_from sep acc s)"
proof (induction s arbitrary: acc)
  case Nil
  then show ?case by simp
next
  case (Cons c cs)
  show ?case
  proof (cases "c = sep")
    case True
    have "split_from sep [] cs \<noteq> []" by (rule split_from_nonempty)
    then have "1 \<le> length (split_from sep [] cs)" by (cases "split_from sep [] cs") simp_all
    with True show ?thesis by simp
  next
    case False
    with Cons show ?thesis by simp
  qed
qed

lemma raw_short_fields:
  assumes "length (py_split raw (CHR 0x09)) < 2"
  shows "length (tab_fields raw) < 2"
proof -
  from assms have "CHR 0x09 \<notin> set raw"
    using split_from_sep [of "CHR 0x09" raw "[]"] by (auto simp: py_split_def)
  then have "CHR 0x09 \<notin> set (strip raw)" using set_strip [of raw] by auto
  then show ?thesis by (simp add: tab_fields_def py_split_def split_from_no_sep)
qed

lemma load_lines_skip:
  "length (tab_fields raw) < 2 \<Longrightarrow> load_lines (raw # rest) self = load_lines rest self"
  by simp

lemma load_lines_bad_id:
  "2 \<le> length (tab_fields raw) \<Longrightarrow> py_int (tab_fields raw ! 0) = Inl e \<Longrightarrow>
     load_lines (raw # rest) self = (Some e, self)"
  using tab_fields_blank [of raw] by auto

lemma load_lines_good:
  "2 \<le> length (tab_fields raw) \<Longrightarrow> py_int (tab_fields raw ! 0) = Inr bid \<Longrightarrow>
     new_booking bid (tab_fields raw ! 1) = Inr b \<Longrightarrow>
     load_lines (raw # rest) self = load_lines rest (self\<lparr>bookings := bookings self @ [b]\<rparr>)"
  using tab_fields_blank [of raw] by auto

lemma load_lines_filter:
  "load_lines ls self = load_lines (filter (\<lambda>raw. 2 \<le> length (tab_fields raw)) ls) self"
proof (induction ls arbitrary: self)
  case Nil
  then show ?case by simp
next
  case (Cons raw rest)
  show ?case
  proof (cases "2 \<le> length (tab_fields raw)")
    case False
    then have "load_lines (raw # rest) self = load_lines rest self"
      by (intro load_lines_skip) simp
    with False Cons show ?thesis by simp
  next
    case True
    then have ne: "strip raw \<noteq> []" using tab_fields_blank [of raw] by auto
    show ?thesis using True ne Cons [of "self\<lparr>bookings := bookings self @ [b]\<rparr>" for b]
      by (simp split: sum.splits)
  qed
qed

lemma load_lines_bad_seat:
  "2 \<le> length (tab_fields raw) \<Longrightarrow> py_int (tab_fields raw ! 0) = Inr bid \<Longrightarrow>
     new_booking bid (tab_fields raw ! 1) = Inl e \<Longrightarrow>
     load_lines (raw # rest) self = (Some e, self)"
  using tab_fields_blank [of raw] by auto

text \<open>A loop that raises does so at a record line, on its identifier or on its seats,
  and leaves what the lines before that one give.\<close>

lemma load_lines_fail_split:
  "fst (load_lines ls self) = Some e \<Longrightarrow>
     \<exists>pre raw post. ls = pre @ raw # post
       \<and> load_lines pre self = (None, snd (load_lines ls self))
       \<and> 2 \<le> length (tab_fields raw)
       \<and> (py_int (tab_fields raw ! 0) = Inl e
          \<or> (\<exists>bid. py_int (tab_fields raw ! 0) = Inr bid
                \<and> new_booking bid (tab_fields raw ! 1) = Inl e))"
proof (induction ls arbitrary: self)
  case Nil
  then show ?case by simp
next
  case (Cons raw rest)
  let ?F = "\<lambda>r. 2 \<le> length (tab_fields r)
       \<and> (py_int (tab_fields r ! 0) = Inl e
          \<or> (\<exists>bid. py_int (tab_fields r ! 0) = Inr bid
                \<and> new_booking bid (tab_fields r ! 1) = Inl e))"
  have here: ?case if "load_lines (raw # rest) self = (Some e, self)" "?F raw"
  proof -
    from that(1) have "raw # rest = [] @ raw # rest"
      "load_lines [] self = (None, snd (load_lines (raw # rest) self))"
      by simp_all
    with that(2) show ?thesis by blast
  qed
  have later: ?case if st: "\<And>ls'. load_lines (raw # ls') self = load_lines ls' s'" for s'
  proof -
    from st Cons.prems have "fst (load_lines rest s') = Some e" by simp
    from Cons.IH [OF this] obtain pre r post where
      p: "rest = pre @ r # post" "load_lines pre s' = (None, snd (load_lines rest s'))" "?F r"
      by blast
    have "raw # rest = (raw # pre) @ r # post" using p(1) by simp
    moreover have "load_lines (raw # pre) self = (None, snd (load_lines (raw # rest) self))"
      using p(2) by (simp only: st)
    ultimately show ?thesis using p(3) by blast
  qed
  show ?case
  proof (cases "2 \<le> length (tab_fields raw)")
    case False
    then have "load_lines (raw # ls') self = load_lines ls' self" for ls'
      by (intro load_lines_skip) simp
    then show ?thesis by (rule later)
  next
    case True
    show ?thesis
    proof (cases "py_int (tab_fields raw ! 0)")
      case (Inl e')
      from load_lines_bad_id [OF True Inl] Cons.prems
      have "e' = e" "load_lines (raw # rest) self = (Some e, self)" by simp_all
      with True Inl show ?thesis by (intro here) simp_all
    next
      case (Inr bid)
      show ?thesis
      proof (cases "new_booking bid (tab_fields raw ! 1)")
        case e': (Inl e')
        from load_lines_bad_seat [OF True Inr e'] Cons.prems
        have "e' = e" "load_lines (raw # rest) self = (Some e, self)" by simp_all
        with True Inr e' show ?thesis by (intro here) simp_all
      next
        case b: (Inr b)
        have "load_lines (raw # ls') self
            = load_lines ls' (self\<lparr>bookings := bookings self @ [b]\<rparr>)" for ls'
          by (rule load_lines_good [OF True Inr b])
        then show ?thesis by (rule later)
      qed
    qed
  qed
qed

lemma load_lines_error:
  "fst (load_lines ls self) = Some e \<Longrightarrow> \<exists>v. e = ValueError v"
  using load_lines_fail_split [of ls self e] py_int_error new_booking_error by blast

lemma load_lines_fails:
  assumes "\<exists>raw\<in>set ls. 2 \<le> length (tab_fields raw) \<and> (\<exists>e. py_int (tab_fields raw ! 0) = Inl e)"
  shows "\<exists>v. fst (load_lines ls self) = Some (ValueError v)"
  using assms
proof (induction ls arbitrary: self)
  case Nil
  then show ?case by simp
next
  case (Cons raw rest)
  show ?case
  proof (cases "2 \<le> length (tab_fields raw)")
    case False
    then have sk: "load_lines (raw # rest) self = load_lines rest self"
      by (intro load_lines_skip) simp
    from False Cons.prems
    have "\<exists>r\<in>set rest. 2 \<le> length (tab_fields r) \<and> (\<exists>e. py_int (tab_fields r ! 0) = Inl e)" by auto
    from Cons.IH [OF this] show ?thesis by (simp only: sk)
  next
    case True
    show ?thesis
    proof (cases "py_int (tab_fields raw ! 0)")
      case (Inl e)
      from load_lines_bad_id [OF True Inl] py_int_error [OF Inl] show ?thesis by auto
    next
      case (Inr bid)
      show ?thesis
      proof (cases "new_booking bid (tab_fields raw ! 1)")
        case e: (Inl e)
        from load_lines_bad_seat [OF True Inr e] new_booking_error [OF e] show ?thesis by simp
      next
        case b: (Inr b)
        from Inr Cons.prems
        have "\<exists>r\<in>set rest. 2 \<le> length (tab_fields r) \<and> (\<exists>e. py_int (tab_fields r ! 0) = Inl e)"
          by auto
        from Cons.IH [OF this] show ?thesis by (simp only: load_lines_good [OF True Inr b])
      qed
    qed
  qed
qed

lemma load_lines_all_short:
  "\<forall>raw\<in>set ls. length (tab_fields raw) < 2 \<Longrightarrow> load_lines ls self = (None, self)"
proof -
  assume "\<forall>raw\<in>set ls. length (tab_fields raw) < 2"
  then have "filter (\<lambda>raw. 2 \<le> length (tab_fields raw)) ls = []"
    by (auto simp: filter_empty_conv)
  with load_lines_filter [of ls self] show ?thesis by simp
qed

lemma load_file_readable:
  "fs file_path = Readable contents \<Longrightarrow>
     load_bookings_from_file fs file_path self =
       (case load_lines (record_lines (readlines contents)) (self\<lparr>bookings := []\<rparr>) of
          (None, self2) \<Rightarrow> (None, self2)
        | (Some e, self2) \<Rightarrow> (Some (reraise file_path e), self2))"
  by (simp add: load_bookings_from_file_def open_readlines_def)

lemma reraise_ValueError: "reraise file_path (ValueError v) = Exception (ValueError v)"
  by (simp add: reraise_def)

lemma new_booking_Inl_limit: "new_booking bid s = Inl e \<Longrightarrow> \<not> seats_within_limit s"
  using new_booking_ok [of s bid] by auto

text \<open>
  Claim C6, as stated, fails when the tab-separated fields are those of the line as it
  stands in the file. The loader strips the line before it splits it: the line of
  \<open>abc\<close> and a tab has two tab-separated fields and an identifier that \<^verbatim>\<open>int\<close> rejects,
  yet a file of that line loads without error into an empty collection; and the line of
  a tab, \<open>8\<close>, a tab and \<open>A4\<close> has an empty first field, yet loads as booking 8.
\<close>

theorem bad_identifier_line_skipped:
  "py_split (''abc'' @ [CHR 0x09]) (CHR 0x09) = [''abc'', '''']
   \<and> py_int ''abc'' = Inl (ValueError ''abc'')
   \<and> load_bookings_from_file (no_files(''f'' := Readable (''abc'' @ [CHR 0x09]))) ''f''
         \<lparr>bookings = []\<rparr>
       = (None, \<lparr>bookings = []\<rparr>)
   \<and> py_split ([CHR 0x09] @ ''8'' @ [CHR 0x09] @ ''A4'') (CHR 0x09) = ['''', ''8'', ''A4'']
   \<and> py_int '''' = Inl (ValueError '''')
   \<and> load_bookings_from_file
         (no_files(''f'' := Readable ([CHR 0x09] @ ''8'' @ [CHR 0x09] @ ''A4''))) ''f''
         \<lparr>bookings = []\<rparr>
       = (None, \<lparr>bookings = [\<lparr>booking_id = 8, seats = [''A4''], min_distance = 4\<rparr>]\<rparr>)"
  by code_simp

text \<open>
  Claim C6, amended. The fields of a record line are the tab-separated pieces of the
  line as the loader splits it, that is after stripping. In the loop over the record
  lines, a line with fewer than two fields is passed over: the loop goes on with the
  same collection and no exception. This holds in particular for every line that has
  fewer than two tab-separated pieces before stripping. So loading any list of lines is
  loading its lines of two or more fields, and a readable file with no other lines
  loads normally into an empty collection. A line of two or more fields whose first
  field \<^verbatim>\<open>int\<close> rejects ends the loop at once with the \<^verbatim>\<open>ValueError\<close> of that field; a
  readable file with such a record line anywhere makes the whole load raise the generic
  exception built from a \<^verbatim>\<open>ValueError\<close>.
\<close>

theorem load_lines_short_skipped_bad_id_fails:
  "(\<forall>raw rest self. length (tab_fields raw) < 2 \<longrightarrow>
        load_lines (raw # rest) self = load_lines rest self)
   \<and> (\<forall>raw rest self. length (py_split raw (CHR 0x09)) < 2 \<longrightarrow>
        load_lines (raw # rest) self = load_lines rest self)
   \<and> (\<forall>ls self. load_lines ls self
        = load_lines (filter (\<lambda>raw. 2 \<le> length (tab_fields raw)) ls) self)
   \<and> (\<forall>raw rest self e. 2 \<le> length (tab_fields raw) \<and> py_int (tab_fields raw ! 0) = Inl e \<longrightarrow>
        load_lines (raw # rest) self = (Some e, self) \<and> (\<exists>v. e = ValueError v))
   \<and> (\<forall>fs file_path contents self. fs file_path = Readable contents
        \<and> (\<forall>raw\<in>set (record_lines (readlines contents)). length (tab_fields raw) < 2) \<longrightarrow>
        load_bookings_from_file fs file_path self = (None, self\<lparr>bookings := []\<rparr>))
   \<and> (\<forall>fs file_path contents self. fs file_path = Readable contents
        \<and> (\<exists>raw\<in>set (record_lines (readlines contents)).
              2 \<le> length (tab_fields raw) \<and> (\<exists>e. py_int (tab_fields raw ! 0) = Inl e)) \<longrightarrow>
        (\<exists>v. fst (load_bookings_from_file fs file_path self) = Some (Exception (ValueError v))))"
proof -
  have c3: "load_lines (raw # rest) self = (Some e, self) \<and> (\<exists>v. e = ValueError v)"
    if "2 \<le> length (tab_fields raw)" "py_int (tab_fields raw ! 0) = Inl e" for raw rest self e
    using load_lines_bad_id [OF that] py_int_error [OF that(2)] by simp
  have c4: "load_bookings_from_file fs file_path self = (None, self\<lparr>bookings := []\<rparr>)"
    if "fs file_path = Readable contents"
       "\<forall>raw\<in>set (record_lines (readlines contents)). length (tab_fields raw) < 2"
    for fs file_path contents self
    using load_file_readable [of fs file_path contents self] that(1)
    by (simp add: load_lines_all_short [OF that(2)])
  have c5: "\<exists>v. fst (load_bookings_from_file fs file_path self) = Some (Exception (ValueError v))"
    if "fs file_path = Readable contents"
       "\<exists>raw\<in>set (record_lines (readlines contents)).
              2 \<le> length (tab_fields raw) \<and> (\<exists>e. py_int (tab_fields raw ! 0) = Inl e)"
    for fs file_path contents self
  proof -
    from load_lines_fails [OF that(2)] obtain v where
      "fst (load_lines (record_lines (readlines contents)) (self\<lparr>bookings := []\<rparr>)) = Some (ValueError v)"
      by blast
    then show ?thesis
      using load_file_readable [of fs file_path contents self] that(1)
      by (cases "load_lines (record_lines (readlines contents)) (self\<lparr>bookings := []\<rparr>)")
         (auto simp: reraise_ValueError)
  qed
  have c1: "load_lines (raw # rest) self = load_lines rest self"
    if "length (py_split raw (CHR 0x09)) < 2" for raw rest self
    using raw_short_fields [OF that] by (rule load_lines_skip)
  have k1: "\<forall>raw rest self. length (tab_fields raw) < 2 \<longrightarrow>
        load_lines (raw # rest) self = load_lines rest self"
    by (intro allI impI) (rule load_lines_skip)
  have k2: "\<forall>raw rest self. length (py_split raw (CHR 0x09)) < 2 \<longrightarrow>
        load_lines (raw # rest) self = load_lines rest self"
    by (intro allI impI) (rule c1)
  have k3: "\<forall>ls self. load_lines ls self
        = load_lines (filter (\<lambda>raw. 2 \<le> length (tab_fields raw)) ls) self"
    by (intro allI) (rule load_lines_filter)
  have k4: "\<forall>raw rest self e. 2 \<le> length (tab_fields raw) \<and> py_int (tab_fields raw ! 0) = Inl e \<longrightarrow>
        load_lines (raw # rest) self = (Some e, self) \<and> (\<exists>v. e = ValueError v)"
    by (intro allI impI, elim conjE) (rule c3)
  have k5: "\<forall>fs file_path contents self. fs file_path = Readable contents
        \<and> (\<forall>raw\<in>set (record_lines (readlines contents)). length (tab_fields raw) < 2) \<longrightarrow>
        load_bookings_from_file fs file_path self = (None, self\<lparr>bookings := []\<rparr>)"
    by (intro allI impI, elim conjE) (rule c4)
  have k6: "\<forall>fs file_path contents self. fs file_path = Readable contents
        \<and> (\<exists>raw\<in>set (record_lines (readlines contents)).
              2 \<le> length (tab_fields raw) \<and> (\<exists>e. py_int (tab_fields raw ! 0) = Inl e)) \<longrightarrow>
        (\<exists>v. fst (load_bookings_from_file fs file_path self) = Some (Exception (ValueError v)))"
    by (intro allI impI, elim conjE) (rule c5)
  from k1 k2 k3 k4 k5 k6 show ?thesis by (intro conjI)
qed

theorem load_lines_short_skipped_bad_id_fails_witness:
  "load_lines [''101'', ''abc'' @ [CHR 0x09], ''x'' @ [CHR 0x09] @ ''B2'', ''7'' @ [CHR 0x09] @ ''A3'']
       \<lparr>bookings = []\<rparr>
     = (Some (ValueError ''x''), \<lparr>bookings = []\<rparr>)
   \<and> load_bookings_from_file (no_files(''f'' := Readable ''101'')) ''f'' \<lparr>bookings = []\<rparr>
     = (None, \<lparr>bookings = []\<rparr>)
   \<and> (\<exists>v. fst (load_bookings_from_file (no_files(''f'' := Readable (''x'' @ [CHR 0x09] @ ''B2'')))
          ''f'' \<lparr>bookings = []\<rparr>) = Some (Exception (ValueError v)))"
proof -
  note t = load_lines_short_skipped_bad_id_fails
  note skip = t [THEN conjunct1, rule_format]
  note skip_raw = t [THEN conjunct2, THEN conjunct1, rule_format]
  note bad_id = t [THEN conjunct2, THEN conjunct2, THEN conjunct2, THEN conjunct1, rule_format]
  note all_short = t [THEN conjunct2, THEN conjunct2, THEN conjunct2, THEN conjunct2,
      THEN conjunct1, rule_format]
  note fails = t [THEN conjunct2, THEN conjunct2, THEN conjunct2, THEN conjunct2,
      THEN conjunct2, rule_format]
  let ?one = "''abc'' @ [CHR 0x09]"
  let ?bad = "''x'' @ [CHR 0x09] @ ''B2''"
  let ?rest = "[''7'' @ [CHR 0x09] @ ''A3'']"
  have raw_short: "length (py_split ''101'' (CHR 0x09)) < 2" by code_simp
  have short: "length (tab_fields ''101'') < 2" by code_simp
  have one: "length (tab_fields ?one) < 2" by code_simp
  have bad: "2 \<le> length (tab_fields ?bad) \<and> py_int (tab_fields ?bad ! 0) = Inl (ValueError ''x'')"
    by code_simp
  have "load_lines (''101'' # ?one # ?bad # ?rest) \<lparr>bookings = []\<rparr>
      = load_lines (?one # ?bad # ?rest) \<lparr>bookings = []\<rparr>"
    by (rule skip_raw [OF raw_short])
  moreover have "load_lines (?one # ?bad # ?rest) \<lparr>bookings = []\<rparr>
      = load_lines (?bad # ?rest) \<lparr>bookings = []\<rparr>"
    by (rule skip [OF one])
  moreover have "load_lines (?bad # ?rest) \<lparr>bookings = []\<rparr>
      = (Some (ValueError ''x''), \<lparr>bookings = []\<rparr>)"
    using bad_id [OF bad] by (rule conjunct1)
  ultimately have a: "load_lines [''101'', ?one, ?bad, ''7'' @ [CHR 0x09] @ ''A3''] \<lparr>bookings = []\<rparr>
     = (Some (ValueError ''x''), \<lparr>bookings = []\<rparr>)"
    by (simp only:)
  have rl1: "record_lines (readlines ''101'') = [''101'']" by code_simp
  have f1: "(no_files(''f'' := Readable ''101'')) ''f'' = Readable ''101''
      \<and> (\<forall>raw\<in>set (record_lines (readlines ''101'')). length (tab_fields raw) < 2)"
    using short by (simp only: rl1) simp
  have "load_bookings_from_file (no_files(''f'' := Readable ''101'')) ''f'' \<lparr>bookings = []\<rparr>
     = (None, \<lparr>bookings = []\<rparr>\<lparr>bookings := []\<rparr>)"
    using f1
    by (rule all_short [of "no_files(''f'' := Readable ''101'')" "''f''" "''101''" "\<lparr>bookings = []\<rparr>"])
  then have b: "load_bookings_from_file (no_files(''f'' := Readable ''101'')) ''f'' \<lparr>bookings = []\<rparr>
     = (None, \<lparr>bookings = []\<rparr>)"
    by simp
  have rl2: "record_lines (readlines ?bad) = [?bad]" by code_simp
  have f2: "(no_files(''f'' := Readable ?bad)) ''f'' = Readable ?bad
      \<and> (\<exists>raw\<in>set (record_lines (readlines ?bad)).
              2 \<le> length (tab_fields raw) \<and> (\<exists>e. py_int (tab_fields raw ! 0) = Inl e))"
    using bad by (simp only: rl2) simp
  have c: "\<exists>v. fst (load_bookings_from_file (no_files(''f'' := Readable ?bad))
          ''f'' \<lparr>bookings = []\<rparr>) = Some (Exception (ValueError v))"
    using f2
    by (rule fails [of "no_files(''f'' := Readable ?bad)" "''f''" ?bad "\<lparr>bookings = []\<rparr>"])
  from a b c show ?thesis by (intro conjI)
qed

text \<open>
  Claim C7. Loading from a path where no file is raises \<^verbatim>\<open>FileNotFoundError\<close>. When
  a file is there, whatever the load raises (an unreadable file, a rejected identifier or seat number)
  is the generic \<^verbatim>\<open>Exception\<close>, which is never a \<^verbatim>\<open>FileNotFoundError\<close>.
\<close>

theorem file_not_found_distinct:
  "(fs file_path = Absent \<longrightarrow>
      fst (load_bookings_from_file fs file_path self)
        = Some (FileNotFoundError (''Booking file not found: '' @ file_path)))
   \<and> (fs file_path \<noteq> Absent \<longrightarrow>
      (\<forall>e. fst (load_bookings_from_file fs file_path self) = Some e \<longrightarrow>
         (\<exists>cause. e = Exception cause)))
   \<and> (\<forall>m cause. FileNotFoundError m \<noteq> Exception cause)"
proof -
  have a: "fst (load_bookings_from_file fs file_path self)
        = Some (FileNotFoundError (''Booking file not found: '' @ file_path))"
    if "fs file_path = Absent"
    using that by (simp add: load_bookings_from_file_def open_readlines_def reraise_def)
  have b: "\<exists>cause. e = Exception cause"
    if "fs file_path \<noteq> Absent" "fst (load_bookings_from_file fs file_path self) = Some e" for e
  proof (cases "fs file_path")
    case Absent
    with that show ?thesis by simp
  next
    case Unreadable
    with that(2) show ?thesis
      by (auto simp: load_bookings_from_file_def open_readlines_def reraise_def)
  next
    case (Readable contents)
    obtain r s where l: "load_lines (record_lines (readlines contents)) (self\<lparr>bookings := []\<rparr>) = (r, s)"
      by (cases "load_lines (record_lines (readlines contents)) (self\<lparr>bookings := []\<rparr>)")
    with that(2) load_file_readable [of fs file_path contents self] Readable
    obtain e' where e': "r = Some e'" "e = reraise file_path e'"
      by (cases r) auto
    from load_lines_error [of "record_lines (readlines contents)" "self\<lparr>bookings := []\<rparr>" e'] l e'
    obtain v where "e' = ValueError v" by auto
    with e' show ?thesis by (simp add: reraise_ValueError)
  qed
  from a b show ?thesis by blast
qed

theorem file_not_found_distinct_witness:
  "fst (load_bookings_from_file no_files ''missing.txt'' \<lparr>bookings = []\<rparr>)
     = Some (FileNotFoundError ''Booking file not found: missing.txt'')
   \<and> (\<exists>cause. fst (load_bookings_from_file (no_files(''f'' := Unreadable)) ''f'' \<lparr>bookings = []\<rparr>)
         = Some (Exception cause))"
proof -
  have a: "no_files ''missing.txt'' = Absent" by (simp add: no_files_def)
  have b: "(no_files(''f'' := Unreadable)) ''f'' \<noteq> Absent" by simp
  have e: "\<exists>e. fst (load_bookings_from_file (no_files(''f'' := Unreadable)) ''f'' \<lparr>bookings = []\<rparr>)
     = Some e"
    by (simp add: load_bookings_from_file_def open_readlines_def)
  from file_not_found_distinct [of no_files "''missing.txt''" "\<lparr>bookings = []\<rparr>",
      THEN conjunct1, rule_format, OF a]
  have 1: "fst (load_bookings_from_file no_files ''missing.txt'' \<lparr>bookings = []\<rparr>)
     = Some (FileNotFoundError ''Booking file not found: missing.txt'')"
    by simp
  from e obtain e' where
    e': "fst (load_bookings_from_file (no_files(''f'' := Unreadable)) ''f'' \<lparr>bookings = []\<rparr>)
      = Some e'" ..
  from file_not_found_distinct [of "no_files(''f'' := Unreadable)" "''f''" "\<lparr>bookings = []\<rparr>",
      THEN conjunct2, THEN conjunct1, rule_format, OF b e']
  have 2: "\<exists>cause. fst (load_bookings_from_file (no_files(''f'' := Unreadable)) ''f'' \<lparr>bookings = []\<rparr>)
         = Some (Exception cause)"
    using e' by simp
  from 1 2 show ?thesis by (intro conjI)
qed

text \<open>A file of two records, the second with the identifier \<open>x\<close>.\<close>

lemma partial_file_load:
  "load_bookings_from_file
     (no_files(''f'' := Readable (''1'' @ [CHR 0x09] @ ''A1'' @ [CHR 0x0A] @ ''x'' @ [CHR 0x09] @ ''B2'' @ [CHR 0x0A])))
     ''f'' \<lparr>bookings = []\<rparr>
   = (Some (Exception (ValueError ''x'')),
      \<lparr>bookings = [\<lparr>booking_id = 1, seats = [''A1''], min_distance = 1\<rparr>]\<rparr>)"
  by code_simp

text \<open>
  Claim C5, as stated, fails: loading a file whose second record has the identifier
  \<open>x\<close> raises, and the collection then holds the booking of the first record. It is
  neither cleared nor restored.
\<close>

theorem failed_load_keeps_prefix:
  "fst (load_bookings_from_file
     (no_files(''f'' := Readable (''1'' @ [CHR 0x09] @ ''A1'' @ [CHR 0x0A] @ ''x'' @ [CHR 0x09] @ ''B2'' @ [CHR 0x0A])))
     ''f'' \<lparr>bookings = []\<rparr>) = Some (Exception (ValueError ''x''))
   \<and> bookings (snd (load_bookings_from_file
     (no_files(''f'' := Readable (''1'' @ [CHR 0x09] @ ''A1'' @ [CHR 0x0A] @ ''x'' @ [CHR 0x09] @ ''B2'' @ [CHR 0x0A])))
     ''f'' \<lparr>bookings = []\<rparr>)) = [\<lparr>booking_id = 1, seats = [''A1''], min_distance = 1\<rparr>]
   \<and> bookings (snd (load_bookings_from_file
     (no_files(''f'' := Readable (''1'' @ [CHR 0x09] @ ''A1'' @ [CHR 0x0A] @ ''x'' @ [CHR 0x09] @ ''B2'' @ [CHR 0x0A])))
     ''f'' \<lparr>bookings = []\<rparr>)) \<noteq> []"
  by (simp only: partial_file_load) simp

lemma cleared_eq: "(self :: generator)\<lparr>bookings := []\<rparr> = \<lparr>bookings = []\<rparr>"
  by (cases self) simp

text \<open>
  Claim C5, amended. Each load operation empties the collection before it reads: the
  outcome of a load, the collection included, does not depend on the collection before
  it, so no booking of a prior load is ever mixed with those of the new load. A load
  that fails on opening or reading the file leaves the collection empty. A load of a
  readable file that fails does so at a record line of two or more fields, either
  because \<^verbatim>\<open>int\<close> rejects its identifier or because one of its seats is not within the
  limit on digits, and leaves the collection holding exactly what loading the record
  lines before that one gives: a prefix of the new records. A load from in-memory data
  that fails does so at a pair with a seat not within the limit, and leaves exactly
  what loading the pairs before that one gives.
\<close>

theorem load_replaces_collection:
  "load_bookings_from_data booking_data self = load_bookings_from_data booking_data self'
   \<and> load_bookings_from_file fs file_path self = load_bookings_from_file fs file_path self'
   \<and> ((\<forall>contents. fs file_path \<noteq> Readable contents) \<longrightarrow>
        fst (load_bookings_from_file fs file_path self) \<noteq> None
        \<and> snd (load_bookings_from_file fs file_path self) = \<lparr>bookings = []\<rparr>)
   \<and> (\<forall>contents e. fs file_path = Readable contents
          \<and> fst (load_bookings_from_file fs file_path self) = Some e \<longrightarrow>
        (\<exists>pre raw post. record_lines (readlines contents) = pre @ raw # post
           \<and> load_lines pre \<lparr>bookings = []\<rparr>
               = (None, snd (load_bookings_from_file fs file_path self))
           \<and> 2 \<le> length (tab_fields raw)
           \<and> ((\<exists>v. py_int (tab_fields raw ! 0) = Inl v)
              \<or> (\<exists>bid. py_int (tab_fields raw ! 0) = Inr bid
                    \<and> \<not> seats_within_limit (tab_fields raw ! 1)))))
   \<and> (\<forall>e. fst (load_bookings_from_data booking_data self) = Some e \<longrightarrow>
        (\<exists>pre x post. booking_data = pre @ x # post
           \<and> load_bookings_from_data pre self
               = (None, snd (load_bookings_from_data booking_data self))
           \<and> \<not> seats_within_limit (snd x)))"
proof -
  have a: "load_bookings_from_data booking_data self = load_bookings_from_data booking_data self'"
    by (simp add: load_bookings_from_data_def cleared_eq)
  have b: "load_bookings_from_file fs file_path self = load_bookings_from_file fs file_path self'"
    by (simp add: load_bookings_from_file_def cleared_eq)
  have c: "fst (load_bookings_from_file fs file_path self) \<noteq> None
        \<and> snd (load_bookings_from_file fs file_path self) = \<lparr>bookings = []\<rparr>"
    if "\<forall>contents. fs file_path \<noteq> Readable contents"
    using that
    by (cases "fs file_path")
       (simp_all add: load_bookings_from_file_def open_readlines_def cleared_eq)
  have d: "\<exists>pre raw post. record_lines (readlines contents) = pre @ raw # post
           \<and> load_lines pre \<lparr>bookings = []\<rparr>
               = (None, snd (load_bookings_from_file fs file_path self))
           \<and> 2 \<le> length (tab_fields raw)
           \<and> ((\<exists>v. py_int (tab_fields raw ! 0) = Inl v)
              \<or> (\<exists>bid. py_int (tab_fields raw ! 0) = Inr bid
                    \<and> \<not> seats_within_limit (tab_fields raw ! 1)))"
    if r: "fs file_path = Readable contents"
      and f: "fst (load_bookings_from_file fs file_path self) = Some e" for contents e
  proof -
    let ?ls = "record_lines (readlines contents)"
    have eq: "load_bookings_from_file fs file_path self =
       (case load_lines ?ls \<lparr>bookings = []\<rparr> of
          (None, self2) \<Rightarrow> (None, self2)
        | (Some e, self2) \<Rightarrow> (Some (reraise file_path e), self2))"
      using load_file_readable [of fs file_path contents self] r by (simp add: cleared_eq)
    obtain x s where l: "load_lines ?ls \<lparr>bookings = []\<rparr> = (x, s)"
      by (cases "load_lines ?ls \<lparr>bookings = []\<rparr>")
    with f eq obtain e' where e': "x = Some e'" by (cases x) auto
    with l eq have s: "snd (load_bookings_from_file fs file_path self) = s" by simp
    from l e' have "fst (load_lines ?ls \<lparr>bookings = []\<rparr>) = Some e'" by simp
    from load_lines_fail_split [OF this] obtain pre raw post where
      p: "?ls = pre @ raw # post" "load_lines pre \<lparr>bookings = []\<rparr> = (None, s)"
         "2 \<le> length (tab_fields raw)"
         "py_int (tab_fields raw ! 0) = Inl e'
          \<or> (\<exists>bid. py_int (tab_fields raw ! 0) = Inr bid
                \<and> new_booking bid (tab_fields raw ! 1) = Inl e')"
      using l by auto
    from p(4) have "(\<exists>v. py_int (tab_fields raw ! 0) = Inl v)
              \<or> (\<exists>bid. py_int (tab_fields raw ! 0) = Inr bid
                    \<and> \<not> seats_within_limit (tab_fields raw ! 1))"
    proof
      assume "py_int (tab_fields raw ! 0) = Inl e'"
      then show ?thesis by blast
    next
      assume "\<exists>bid. py_int (tab_fields raw ! 0) = Inr bid
                \<and> new_booking bid (tab_fields raw ! 1) = Inl e'"
      then obtain bid where "py_int (tab_fields raw ! 0) = Inr bid"
        "new_booking bid (tab_fields raw ! 1) = Inl e'" by blast
      with new_booking_Inl_limit show ?thesis by blast
    qed
    with p(1,2,3) s show ?thesis by blast
  qed
  have e: "\<exists>pre x post. booking_data = pre @ x # post
           \<and> load_bookings_from_data pre self
               = (None, snd (load_bookings_from_data booking_data self))
           \<and> \<not> seats_within_limit (snd x)"
    if "fst (load_bookings_from_data booking_data self) = Some e" for e
  proof -
    from that have "fst (load_data_loop booking_data (self\<lparr>bookings := []\<rparr>)) = Some e"
      by (simp add: load_bookings_from_data_def)
    from load_data_loop_fail_split [OF this] obtain pre x post where
      p: "booking_data = pre @ x # post"
         "load_data_loop pre (self\<lparr>bookings := []\<rparr>)
            = (None, snd (load_data_loop booking_data (self\<lparr>bookings := []\<rparr>)))"
         "new_booking (fst x) (snd x) = Inl e" by blast
    from p(3) have "\<not> seats_within_limit (snd x)" by (rule new_booking_Inl_limit)
    moreover from p(2) have "load_bookings_from_data pre self
        = (None, snd (load_bookings_from_data booking_data self))"
      by (simp only: load_bookings_from_data_def)
    ultimately show ?thesis using p(1) by blast
  qed
  have k3: "(\<forall>contents. fs file_path \<noteq> Readable contents) \<longrightarrow>
        fst (load_bookings_from_file fs file_path self) \<noteq> None
        \<and> snd (load_bookings_from_file fs file_path self) = \<lparr>bookings = []\<rparr>"
    by (rule impI) (rule c)
  have k4: "\<forall>contents e. fs file_path = Readable contents
          \<and> fst (load_bookings_from_file fs file_path self) = Some e \<longrightarrow>
        (\<exists>pre raw post. record_lines (readlines contents) = pre @ raw # post
           \<and> load_lines pre \<lparr>bookings = []\<rparr>
               = (None, snd (load_bookings_from_file fs file_path self))
           \<and> 2 \<le> length (tab_fields raw)
           \<and> ((\<exists>v. py_int (tab_fields raw ! 0) = Inl v)
              \<or> (\<exists>bid. py_int (tab_fields raw ! 0) = Inr bid
                    \<and> \<not> seats_within_limit (tab_fields raw ! 1))))"
    by (intro allI impI, elim conjE) (rule d)
  have k5: "\<forall>e. fst (load_bookings_from_data booking_data self) = Some e \<longrightarrow>
        (\<exists>pre x post. booking_data = pre @ x # post
           \<and> load_bookings_from_data pre self
               = (None, snd (load_bookings_from_data booking_data self))
           \<and> \<not> seats_within_limit (snd x))"
    by (intro allI impI) (rule e)
  from a b k3 k4 k5 show ?thesis by (intro conjI)
qed

theorem load_replaces_collection_witness:
  "snd (load_bookings_from_file (no_files(''g'' := Unreadable)) ''g''
          \<lparr>bookings = [\<lparr>booking_id = 9, seats = [''Z9''], min_distance = 9\<rparr>]\<rparr>)
     = \<lparr>bookings = []\<rparr>
   \<and> (\<exists>pre raw post.
         record_lines (readlines (''1'' @ [CHR 0x09] @ ''A1'' @ [CHR 0x0A] @ ''x'' @ [CHR 0x09] @ ''B2'' @ [CHR 0x0A]))
           = pre @ raw # post
         \<and> load_lines pre \<lparr>bookings = []\<rparr>
             = (None, \<lparr>bookings = [\<lparr>booking_id = 1, seats = [''A1''], min_distance = 1\<rparr>]\<rparr>)
         \<and> 2 \<le> length (tab_fields raw)
         \<and> ((\<exists>v. py_int (tab_fields raw ! 0) = Inl v)
            \<or> (\<exists>bid. py_int (tab_fields raw ! 0) = Inr bid
                  \<and> \<not> seats_within_limit (tab_fields raw ! 1))))
   \<and> (\<exists>pre x post.
         [(1, ''A1''), (2, ''B'' @ replicate 4301 (CHR ''0''))] = pre @ x # post
         \<and> load_bookings_from_data pre \<lparr>bookings = []\<rparr>
             = (None, snd (load_bookings_from_data
                  [(1, ''A1''), (2, ''B'' @ replicate 4301 (CHR ''0''))] \<lparr>bookings = []\<rparr>))
         \<and> \<not> seats_within_limit (snd x))"
proof -
  let ?t = "''1'' @ [CHR 0x09] @ ''A1'' @ [CHR 0x0A] @ ''x'' @ [CHR 0x09] @ ''B2'' @ [CHR 0x0A]"
  let ?old = "\<lparr>bookings = [\<lparr>booking_id = 9, seats = [''Z9''], min_distance = 9\<rparr>]\<rparr>"
  let ?d = "[(1 :: int, ''A1''), (2, ''B'' @ replicate 4301 (CHR ''0''))]"
  have u: "\<forall>contents. (no_files(''g'' := Unreadable)) ''g'' \<noteq> Readable contents" by simp
  note t1 = load_replaces_collection [of "[]" ?old ?old "no_files(''g'' := Unreadable)" "''g''"]
  from t1 [THEN conjunct2, THEN conjunct2, THEN conjunct1, THEN mp, OF u]
  have 1: "snd (load_bookings_from_file (no_files(''g'' := Unreadable)) ''g'' ?old) = \<lparr>bookings = []\<rparr>"
    by (rule conjunct2)
  have r: "(no_files(''f'' := Readable ?t)) ''f'' = Readable ?t" by simp
  have f: "fst (load_bookings_from_file (no_files(''f'' := Readable ?t)) ''f'' \<lparr>bookings = []\<rparr>)
      = Some (Exception (ValueError ''x''))"
    by (simp only: partial_file_load) simp
  have s: "snd (load_bookings_from_file (no_files(''f'' := Readable ?t)) ''f'' \<lparr>bookings = []\<rparr>)
      = \<lparr>bookings = [\<lparr>booking_id = 1, seats = [''A1''], min_distance = 1\<rparr>]\<rparr>"
    by (simp only: partial_file_load) simp
  note t2 = load_replaces_collection [of "[]" "\<lparr>bookings = []\<rparr>" "\<lparr>bookings = []\<rparr>"
      "no_files(''f'' := Readable ?t)" "''f''"]
  from t2 [THEN conjunct2, THEN conjunct2, THEN conjunct2, THEN conjunct1, THEN spec, THEN spec,
      THEN mp, OF conjI, OF r f]
  have "\<exists>pre raw post. record_lines (readlines ?t) = pre @ raw # post
           \<and> load_lines pre \<lparr>bookings = []\<rparr>
               = (None, snd (load_bookings_from_file (no_files(''f'' := Readable ?t)) ''f'' \<lparr>bookings = []\<rparr>))
           \<and> 2 \<le> length (tab_fields raw)
           \<and> ((\<exists>v. py_int (tab_fields raw ! 0) = Inl v)
              \<or> (\<exists>bid. py_int (tab_fields raw ! 0) = Inr bid
                    \<and> \<not> seats_within_limit (tab_fields raw ! 1)))" .
  then have 2: "\<exists>pre raw post. record_lines (readlines ?t) = pre @ raw # post
           \<and> load_lines pre \<lparr>bookings = []\<rparr>
               = (None, \<lparr>bookings = [\<lparr>booking_id = 1, seats = [''A1''], min_distance = 1\<rparr>]\<rparr>)
           \<and> 2 \<le> length (tab_fields raw)
           \<and> ((\<exists>v. py_int (tab_fields raw ! 0) = Inl v)
              \<or> (\<exists>bid. py_int (tab_fields raw ! 0) = Inr bid
                    \<and> \<not> seats_within_limit (tab_fields raw ! 1)))"
    by (simp only: s)
  have "\<exists>x\<in>set ?d. \<not> seats_within_limit (snd x)"
    using long_label_not_within_limit by simp
  then have g: "fst (load_bookings_from_data ?d \<lparr>bookings = []\<rparr>) = Some (ValueError limit_message)"
    unfolding load_bookings_from_data_def by (rule load_data_loop_fails)
  note t3 = load_replaces_collection [of ?d "\<lparr>bookings = []\<rparr>" "\<lparr>bookings = []\<rparr>" no_files "''f''"]
  from t3 [THEN conjunct2, THEN conjunct2, THEN conjunct2, THEN conjunct2, THEN spec, THEN mp, OF g]
  have 3: "\<exists>pre x post. ?d = pre @ x # post
         \<and> load_bookings_from_data pre \<lparr>bookings = []\<rparr>
             = (None, snd (load_bookings_from_data ?d \<lparr>bookings = []\<rparr>))
         \<and> \<not> seats_within_limit (snd x)" .
  from 1 2 3 show ?thesis by (intro conjI)
qed

section \<open>The details operation\<close>

lemma fold_dict_other:
  "k \<notin> booking_id ` set bs \<Longrightarrow> fold (\<lambda>b m. m(booking_id b \<mapsto> b)) bs m k = m k"
  by (induction bs arbitrary: m) simp_all

lemma fold_dict_lookup:
  "distinct (map booking_id bs) \<Longrightarrow> b \<in> set bs \<Longrightarrow>
     fold (\<lambda>b m. m(booking_id b \<mapsto> b)) bs m (booking_id b) = Some b"
proof (induction bs arbitrary: m)
  case Nil
  then show ?case by simp
next
  case (Cons x xs)
  show ?case
  proof (cases "b = x")
    case True
    with Cons.prems(1) have "booking_id b \<notin> booking_id ` set xs" by simp
    then have "fold (\<lambda>b m. m(booking_id b \<mapsto> b)) xs (m(booking_id x \<mapsto> x)) (booking_id b)
        = (m(booking_id x \<mapsto> x)) (booking_id b)"
      by (rule fold_dict_other)
    then show ?thesis using True by (simp only: fold_simps comp_apply fun_upd_same)
  next
    case False
    with Cons show ?thesis by simp
  qed
qed

lemma booking_dict_lookup:
  "distinct (map booking_id (bookings self)) \<Longrightarrow> b \<in> set (bookings self) \<Longrightarrow>
     booking_dict self (booking_id b) = Some b"
  by (simp add: booking_dict_def fold_dict_lookup)

lemma details_of_numbered:
  "\<forall>b\<in>set xs. d (booking_id b) = Some b \<Longrightarrow>
     map_result (detail_of d) (map (\<lambda>(i, b). (i, booking_id b)) (enumerate_from k xs))
       = Inr (map (\<lambda>(i, b). \<lparr>d_sequence = i, d_booking_id = booking_id b, d_seats = seats b,
                              d_furthest_seat_distance = min_distance b\<rparr>) (enumerate_from k xs))"
  by (induction xs arbitrary: k) (simp_all add: detail_of_def)

lemma set_sorted_bookings: "set (sorted_bookings self) = set (bookings self)"
  by (simp add: sorted_bookings_def)

lemma details_projection:
  "map (\<lambda>d. (d_sequence d, d_booking_id d))
     (map (\<lambda>(i, b). \<lparr>d_sequence = i, d_booking_id = booking_id b, d_seats = seats b,
                      d_furthest_seat_distance = min_distance b\<rparr>) ys)
   = map (\<lambda>(i, b). (i, booking_id b)) ys"
  by (induction ys) auto

lemma set_enumerate_from: "(i, x) \<in> set (enumerate_from k xs) \<Longrightarrow> x \<in> set xs"
  by (induction xs arbitrary: k) auto

text \<open>
  Claim C10. For a collection with pairwise distinct identifiers the details operation
  does not raise and returns, for the sorted bookings in their order and numbered from
  1, one entry with the sequence number, the identifier, the seat list and the stored
  priority of that booking. Its pairs of sequence number and identifier are the output
  of the ordering operation, every entry reports the seats and priority of a booking
  of the collection with its identifier, and the instance is left as it was.
\<close>

theorem get_boarding_details_agrees:
  assumes "distinct (map booking_id (bookings self))"
  shows "fst (get_boarding_details self)
       = Inr (map (\<lambda>(i, b). \<lparr>d_sequence = i, d_booking_id = booking_id b, d_seats = seats b,
                               d_furthest_seat_distance = min_distance b\<rparr>)
                (enumerate_from 1 (sorted_bookings self)))
     \<and> (\<exists>ds. fst (get_boarding_details self) = Inr ds
          \<and> map (\<lambda>d. (d_sequence d, d_booking_id d)) ds = fst (generate_boarding_sequence self)
          \<and> (\<forall>d\<in>set ds. \<exists>b\<in>set (bookings self). booking_id b = d_booking_id d
                \<and> d_seats d = seats b \<and> d_furthest_seat_distance d = min_distance b))
     \<and> snd (get_boarding_details self) = self"
proof -
  let ?mk = "\<lambda>(i, b). \<lparr>d_sequence = i, d_booking_id = booking_id b, d_seats = seats b,
                               d_furthest_seat_distance = min_distance b\<rparr>"
  let ?ds = "map ?mk (enumerate_from 1 (sorted_bookings self))"
  have look: "\<forall>b\<in>set (sorted_bookings self). booking_dict self (booking_id b) = Some b"
    using assms by (simp add: set_sorted_bookings booking_dict_lookup)
  have seq: "fst (generate_boarding_sequence self)
      = map (\<lambda>(i, b). (i, booking_id b)) (enumerate_from 1 (sorted_bookings self))"
    by (simp add: generate_boarding_sequence_def sorted_bookings_def)
  have st: "snd (generate_boarding_sequence self) = self"
    by (simp add: generate_boarding_sequence_def)
  have g: "get_boarding_details self
      = (map_result (detail_of (booking_dict self)) (fst (generate_boarding_sequence self)), self)"
    using st by (simp add: get_boarding_details_def case_prod_beta)
  have a: "fst (get_boarding_details self) = Inr ?ds"
    by (simp only: g fst_conv seq details_of_numbered [OF look])
  have b: "map (\<lambda>d. (d_sequence d, d_booking_id d)) ?ds = fst (generate_boarding_sequence self)"
    by (simp only: seq details_projection)
  have c: "\<forall>d\<in>set ?ds. \<exists>b\<in>set (bookings self). booking_id b = d_booking_id d
                \<and> d_seats d = seats b \<and> d_furthest_seat_distance d = min_distance b"
  proof
    fix d assume "d \<in> set ?ds"
    then obtain i b where ib: "(i, b) \<in> set (enumerate_from 1 (sorted_bookings self))"
      "d = ?mk (i, b)" by auto
    from set_enumerate_from [OF ib(1)] have "b \<in> set (bookings self)"
      by (simp add: set_sorted_bookings)
    with ib(2) show "\<exists>b\<in>set (bookings self). booking_id b = d_booking_id d
                \<and> d_seats d = seats b \<and> d_furthest_seat_distance d = min_distance b"
      by auto
  qed
  have e: "snd (get_boarding_details self) = self" by (simp add: g)
  from a b c e show ?thesis by blast
qed

theorem get_boarding_details_agrees_witness:
  "fst (get_boarding_details
      \<lparr>bookings = [\<lparr>booking_id = 101, seats = [''A1'', ''B1''], min_distance = 1\<rparr>,
                   \<lparr>booking_id = 120, seats = [''A20'', ''C2''], min_distance = 20\<rparr>]\<rparr>)
   = Inr [\<lparr>d_sequence = 1, d_booking_id = 120, d_seats = [''A20'', ''C2''],
            d_furthest_seat_distance = 20\<rparr>,
          \<lparr>d_sequence = 2, d_booking_id = 101, d_seats = [''A1'', ''B1''],
            d_furthest_seat_distance = 1\<rparr>]"
proof -
  let ?g = "\<lparr>bookings = [\<lparr>booking_id = 101, seats = [''A1'', ''B1''], min_distance = 1\<rparr>,
                   \<lparr>booking_id = 120, seats = [''A20'', ''C2''], min_distance = 20\<rparr>]\<rparr>"
  have d: "distinct (map booking_id (bookings ?g))" by simp
  have s: "enumerate_from 1 (sorted_bookings ?g)
     = [(1, \<lparr>booking_id = 120, seats = [''A20'', ''C2''], min_distance = 20\<rparr>),
        (2, \<lparr>booking_id = 101, seats = [''A1'', ''B1''], min_distance = 1\<rparr>)]"
    by (simp add: sorted_bookings_def sort_key_of_def)
  from get_boarding_details_agrees [OF d, THEN conjunct1] show ?thesis
    by (simp only: s) simp
qed

end
